theory Spec2Isabelle
  imports Main "HOL-Library.AList"
begin

section \<open>Strings\<close>

text \<open>
  Python strings are modelled as \<open>string\<close> (lists of characters) over ASCII.
  The functions below are the string methods the import script uses.
\<close>

text \<open>\<^verbatim>\<open>str.isspace\<close> on ASCII: tab, newline, vertical tab, form feed, carriage return,
  the four separators 0x1c..0x1f and the blank.\<close>

definition is_space :: "char \<Rightarrow> bool" where
  "is_space c \<longleftrightarrow> c \<in> set [CHR 0x09, CHR 0x0A, CHR 0x0B, CHR 0x0C, CHR 0x0D,
                              CHR 0x1C, CHR 0x1D, CHR 0x1E, CHR 0x1F, CHR 0x20]"

text \<open>\<^verbatim>\<open>s.strip(chars)\<close>: drop the leading and the trailing characters that satisfy \<open>p\<close>.\<close>

definition strip_chars :: "(char \<Rightarrow> bool) \<Rightarrow> string \<Rightarrow> string" where
  "strip_chars p s = rev (dropWhile p (rev (dropWhile p s)))"

text \<open>\<^verbatim>\<open>s.strip()\<close>\<close>

definition strip :: "string \<Rightarrow> string" where
  "strip s = strip_chars is_space s"

text \<open>\<^verbatim>\<open>s.split(sep)\<close> for a one-character separator, generalised to a predicate:
  every separator character ends a (possibly empty) piece.\<close>

fun split_by :: "(char \<Rightarrow> bool) \<Rightarrow> string \<Rightarrow> string list" where
  "split_by p [] = [] # []"
| "split_by p (c # cs) =
     (if p c then [] # split_by p cs
      else (case split_by p cs of
              [] \<Rightarrow> [c] # []
            | w # ws \<Rightarrow> (c # w) # ws))"

definition split_on :: "char \<Rightarrow> string \<Rightarrow> string list" where
  "split_on d s = split_by (\<lambda>c. c = d) s"

text \<open>\<^verbatim>\<open>s.split()\<close>: pieces between runs of whitespace, no empty piece.\<close>

definition split_ws :: "string \<Rightarrow> string list" where
  "split_ws s = filter (\<lambda>w. w \<noteq> []) (split_by is_space s)"

text \<open>\<^verbatim>\<open>sep.join(ws)\<close>\<close>

fun join :: "string \<Rightarrow> string list \<Rightarrow> string" where
  "join sep [] = []"
| "join sep [w] = w"
| "join sep (w # v # ws) = w @ sep @ join sep (v # ws)"

text \<open>\<^verbatim>\<open>s.replace(old, new)\<close> for a non-empty \<open>old\<close>: non-overlapping occurrences,
  left to right.\<close>

function replace :: "string \<Rightarrow> string \<Rightarrow> string \<Rightarrow> string" where
  "replace old new [] = []"
| "replace old new (c # cs) =
     (if old \<noteq> [] \<and> take (length old) (c # cs) = old
      then new @ replace old new (drop (length old - 1) cs)
      else c # replace old new cs)"
  by pat_completeness auto
termination
  by (relation "measure (\<lambda>(old, new, s). length s)") auto

text \<open>\<^verbatim>\<open>str(n)\<close> for a natural number.\<close>

function str_nat :: "nat \<Rightarrow> string" where
  "str_nat n =
     (if n < 10 then [char_of (48 + n)]
      else str_nat (n div 10) @ [char_of (48 + n mod 10)])"
  by pat_completeness auto
termination
  by (relation "measure id") auto

declare str_nat.simps [simp del]

section \<open>Data model of the import script\<close>

text \<open>
  \<^verbatim>\<open>events\<close> is an \<^verbatim>\<open>OrderedDict\<close> from event name to event; an event is itself an
  ordered dictionary. The keys an event can hold are kept apart by what they hold:
  \<^item> \<^verbatim>\<open>'name'\<close>, a string;
  \<^item> \<^verbatim>\<open>'aliases'\<close>, a list of strings;
  \<^item> \<^verbatim>\<open>'sources'\<close>, a list of source dictionaries;
  \<^item> \<^verbatim>\<open>'photometry'\<close>, a list of photometry dictionaries;
  \<^item> quantity kinds (\<^verbatim>\<open>'redshift'\<close>, \<^verbatim>\<open>'hvel'\<close>, \<^verbatim>\<open>'claimedtype'\<close>, \<^verbatim>\<open>'host'\<close>,
    \<^verbatim>\<open>'ebv'\<close>, \<^verbatim>\<open>'lumdist'\<close>), each a list of quantity dictionaries;
  \<^item> scalar keys (\<^verbatim>\<open>'maxyear'\<close>, \<^verbatim>\<open>'discoveryear'\<close>, \<^verbatim>\<open>'snra'\<close>, ...), each a string.
  A key that may be absent is an \<open>option\<close>; dictionaries with open key sets are
  association lists, where \<open>AList.update\<close> is the assignment \<^verbatim>\<open>d[k] = v\<close> of an ordered
  dictionary (in place when the key exists, at the end otherwise).
  Every call of \<^verbatim>\<open>add_quanta\<close> in the script passes one of the six quantity kinds, none of
  which is a key of another sort, so the quantity kinds live in a dictionary of their own.
\<close>

datatype error = ValueError | KeyError | InvalidOperation

record quantum =
  q_value :: string
  q_error :: "string option"
  q_source :: "string option"

record source =
  s_name :: string
  s_url :: "string option"
  s_bibcode :: "string option"
  s_alias :: string
  s_secondary :: bool

record photo =
  p_timeunit :: string
  p_time :: string
  p_band :: string
  p_abmag :: string

record event =
  ev_name :: string
  ev_aliases :: "string list option"
  ev_sources :: "source list option"
  ev_quanta :: "(string \<times> quantum list) list"
  ev_photometry :: "photo list option"
  ev_scalars :: "(string \<times> string) list"

type_synonym events = "(string \<times> event) list"

text \<open>\<^verbatim>\<open>events[name] = OrderedDict(); events[name]['name'] = name\<close>\<close>

definition new_event :: "string \<Rightarrow> event" where
  "new_event name =
     \<lparr>ev_name = name, ev_aliases = None, ev_sources = None, ev_quanta = [],
      ev_photometry = None, ev_scalars = []\<rparr>"

text \<open>The alias list of an event, empty when the key is absent.\<close>

definition aliases_of :: "event \<Rightarrow> string list" where
  "aliases_of ev = (case ev_aliases ev of None \<Rightarrow> [] | Some as \<Rightarrow> as)"

section \<open>Entity directory: \<^verbatim>\<open>add_alias\<close> and \<^verbatim>\<open>add_event\<close>\<close>

text \<open>
  A procedure returns the exception it raised, if any, and the directory it leaves.
  \<^verbatim>\<open>add_alias\<close> fails with \<^verbatim>\<open>KeyError\<close> on \<^verbatim>\<open>events[name]\<close> when the name is no key.
\<close>

definition add_alias :: "events \<Rightarrow> string \<Rightarrow> string \<Rightarrow> error option \<times> events" where
  "add_alias evs name alias =
     (case map_of evs name of
        None \<Rightarrow> (Some KeyError, evs)
      | Some ev \<Rightarrow>
          (case ev_aliases ev of
             Some as \<Rightarrow>
               if alias \<notin> set as
               then (None, AList.update name (ev\<lparr>ev_aliases := Some (as @ [alias])\<rparr>) evs)
               else (None, evs)
           | None \<Rightarrow> (None, AList.update name (ev\<lparr>ev_aliases := Some [alias]\<rparr>) evs)))"

text \<open>The loop of \<^verbatim>\<open>add_event\<close> over the events, in insertion order:
  the first event with more than one alias, one of which is the name.\<close>

fun alias_scan :: "string \<Rightarrow> events \<Rightarrow> error + string option" where
  "alias_scan name [] = Inr None"
| "alias_scan name ((k, ev) # rest) =
     (case ev_aliases ev of
        None \<Rightarrow> Inl KeyError
      | Some as \<Rightarrow>
          if length as > 1 \<and> name \<in> set as then Inr (Some k)
          else alias_scan name rest)"

definition add_event :: "events \<Rightarrow> string \<Rightarrow> (error + string) \<times> events" where
  "add_event evs name =
     (if name \<notin> fst ` set evs then
        (case alias_scan name evs of
           Inl e \<Rightarrow> (Inl e, evs)
         | Inr (Some k) \<Rightarrow> (Inr k, evs)
         | Inr None \<Rightarrow>
             (case add_alias (AList.update name (new_event name) evs) name name of
                (Some e, evs') \<Rightarrow> (Inl e, evs')
              | (None, evs') \<Rightarrow> (Inr name, evs')))
      else (Inr name, evs))"

text \<open>Every event lists its own name among its aliases.\<close>

definition own_name_aliased :: "events \<Rightarrow> bool" where
  "own_name_aliased evs \<longleftrightarrow> (\<forall>(k, ev) \<in> set evs. k \<in> set (aliases_of ev))"

text \<open>The alias lists of events with distinct names are disjoint.\<close>

definition aliases_disjoint :: "events \<Rightarrow> bool" where
  "aliases_disjoint evs \<longleftrightarrow>
     (\<forall>(k1, e1) \<in> set evs. \<forall>(k2, e2) \<in> set evs.
        k1 \<noteq> k2 \<longrightarrow> set (aliases_of e1) \<inter> set (aliases_of e2) = {})"

text \<open>The directories that calls of \<^verbatim>\<open>add_event\<close> and \<^verbatim>\<open>add_alias\<close> build from the
  empty one.\<close>

inductive reachable :: "events \<Rightarrow> bool" where
  r_start: "reachable []"
| r_event: "reachable evs \<Longrightarrow> reachable (snd (add_event evs name))"
| r_alias: "reachable evs \<Longrightarrow> reachable (snd (add_alias evs name alias))"

text \<open>The same, where \<^verbatim>\<open>add_alias\<close> is only called with an alias that no other event
  holds.\<close>

inductive reachable_fresh :: "events \<Rightarrow> bool" where
  f_start: "reachable_fresh []"
| f_event: "reachable_fresh evs \<Longrightarrow> reachable_fresh (snd (add_event evs name))"
| f_alias: "reachable_fresh evs \<Longrightarrow>
           \<forall>(k, ev) \<in> set evs. k \<noteq> name \<longrightarrow> alias \<notin> set (aliases_of ev) \<Longrightarrow>
           reachable_fresh (snd (add_alias evs name alias))"

text \<open>The keys of the directory are distinct (it is a dictionary) and every event lists
  its own name.\<close>

definition well_keyed :: "events \<Rightarrow> bool" where
  "well_keyed evs \<longleftrightarrow> distinct (map fst evs) \<and> own_name_aliased evs"

text \<open>The directory of the example: \<^verbatim>\<open>SN1987A\<close> created, then \<^verbatim>\<open>1987A\<close> registered as its alias.\<close>

definition sn1987a_dir :: events where
  "sn1987a_dir = snd (add_alias (snd (add_event [] ''SN1987A'')) ''SN1987A'' ''1987A'')"

text \<open>The same directory after a second event was created.\<close>

definition two_event_dir :: events where
  "two_event_dir = snd (add_event sn1987a_dir ''SN2011fe'')"

text \<open>Two events created under different names, each then given the alias \<^verbatim>\<open>PTF11kly\<close>.\<close>

definition shared_alias_dir :: events where
  "shared_alias_dir =
     snd (add_alias (snd (add_event (snd (add_alias (snd (add_event [] ''SN2011fe''))
       ''SN2011fe'' ''PTF11kly'')) ''PSN J1403'')) ''PSN J1403'' ''PTF11kly'')"

section \<open>Quantities: \<^verbatim>\<open>add_quanta\<close>\<close>

text \<open>
  The script converts strings to numbers with the builtin \<^verbatim>\<open>float\<close> and prints them
  with \<^verbatim>\<open>'%g' % Decimal(s)\<close>. These are binary floating point and are not part of the
  script, so the model takes them as parameters:
  \<^item> \<open>is_float s\<close>: \<^verbatim>\<open>float(s)\<close> returns (it raises \<^verbatim>\<open>ValueError\<close> otherwise);
  \<^item> \<open>float_less a b\<close>: \<^verbatim>\<open>float(a) < float(b)\<close>, and \<open>float_negative s\<close>:
    \<^verbatim>\<open>float(s) < 0.\<close>, both consulted only on strings that \<open>is_float\<close> accepts;
  \<^item> \<open>fmt_g s\<close>: \<^verbatim>\<open>'%g' % Decimal(s)\<close>, applied only behind a successful \<^verbatim>\<open>float\<close>
    of the same string (\<^verbatim>\<open>Decimal\<close> accepts what \<^verbatim>\<open>float\<close> accepts);
  \<^item> \<open>hvel_of_redshift z sig\<close> and \<open>redshift_of_hvel v sig\<close>: the two Doppler formulas of
    the final pass, from \<^verbatim>\<open>float\<close> of the stored string to \<^verbatim>\<open>pretty_num(..., sig = sig)\<close>,
    with the exception they may raise.
  Every theorem below holds for all values of these parameters.
\<close>

record pyenv =
  is_float :: "string \<Rightarrow> bool"
  float_less :: "string \<Rightarrow> string \<Rightarrow> bool"
  float_negative :: "string \<Rightarrow> bool"
  fmt_g :: "string \<Rightarrow> string"
  hvel_of_redshift :: "string \<Rightarrow> nat \<Rightarrow> error + string"
  redshift_of_hvel :: "string \<Rightarrow> nat \<Rightarrow> error + string"

text \<open>\<^verbatim>\<open>is_number\<close>: \<^verbatim>\<open>float(s)\<close> in a \<^verbatim>\<open>try\<close>.\<close>

definition is_number :: "pyenv \<Rightarrow> string \<Rightarrow> bool" where
  "is_number env s = is_float env s"

text \<open>\<^verbatim>\<open>get_sig_digits\<close>: \<^verbatim>\<open>len((''.join(x.split('.'))).strip('0'))\<close>\<close>

definition get_sig_digits :: "string \<Rightarrow> nat" where
  "get_sig_digits x = length (strip_chars (\<lambda>c. c = CHR ''0'') (concat (split_on CHR ''.'' x)))"

definition repbetterquanta :: "string list" where
  "repbetterquanta = [''redshift'', ''ebv'', ''hvel'', ''lumdist'']"

definition typereps :: "(string \<times> string list) list" where
  "typereps =
     [(''I P'',    [''I pec'', ''I-pec'', ''I Pec'', ''I-Pec'']),
      (''Ia P'',   [''Ia pec'', ''Ia-pec'', ''Iapec'']),
      (''Ib P'',   [''Ib pec'', ''Ib-pec'']),
      (''Ic P'',   [''Ic pec'', ''Ic-pec'']),
      (''Ib/c'',   [''Ibc'']),
      (''Ib/c P'', [''Ib/c-pec'']),
      (''II P'',   [''II pec'', ''IIpec'', ''II Pec'', ''IIPec'', ''IIP'', ''IIp'', ''II p'',
                   ''II-pec'', ''II P pec'', ''II-P'']),
      (''II L'',   [''IIL'']),
      (''IIn P'',  [''IIn pec'', ''IIn-pec'']),
      (''IIb P'',  [''IIb-pec'', ''IIb: pec''])]"

text \<open>The \<^verbatim>\<open>host\<close> branch: three replacements, then \<^verbatim>\<open>' '.join(svalue.split())\<close>.\<close>

definition host_name :: "string \<Rightarrow> string" where
  "host_name svalue =
     join '' '' (split_ws (replace ''IC'' ''IC '' (replace ''UGC'' ''UGC ''
       (replace ''NGC'' ''NGC '' svalue))))"

text \<open>The \<^verbatim>\<open>claimedtype\<close> branch: the first entry of \<^verbatim>\<open>typereps\<close> that lists the value
  (no value is listed twice, so the order of the dictionary does not matter).\<close>

fun claimed_type :: "(string \<times> string list) list \<Rightarrow> string \<Rightarrow> string" where
  "claimed_type [] svalue = svalue"
| "claimed_type ((rep, alts) # reps) svalue =
     (if svalue \<in> set alts then rep else claimed_type reps svalue)"

text \<open>
  Lines 248 to 275 of \<^verbatim>\<open>add_quanta\<close>, which do not touch the directory: the checks and the
  normalisation of value and error. \<open>Skip\<close> is the silent \<^verbatim>\<open>return\<close>; \<open>Candidate\<close> carries
  the normalised value and error (\<^verbatim>\<open>svalue\<close>, \<^verbatim>\<open>serror\<close>) into the rest of the function.
\<close>

datatype prepared = Skip | Candidate string string

definition prepare :: "pyenv \<Rightarrow> string \<Rightarrow> string \<Rightarrow> string \<Rightarrow> error + prepared" where
  "prepare env quanta value err =
     (if quanta = [] then Inl ValueError
      else
        let svalue = strip value; serror = strip err in
        if svalue = [] \<or> svalue = ''--'' \<or> svalue = ''-'' then Inr Skip
        else if serror \<noteq> [] \<and> (\<not> is_number env serror \<or> float_negative env serror)
        then Inl ValueError
        else if (quanta = ''hvel'' \<or> quanta = ''redshift'') \<and> \<not> is_number env value
        then Inr Skip
        else
          let svalue = (if quanta = ''host'' then host_name svalue
                        else if quanta = ''claimedtype'' then claimed_type typereps svalue
                        else svalue);
              svalue = (if is_number env value then fmt_g env svalue else svalue);
              serror = (if serror \<noteq> [] then fmt_g env serror else serror)
          in Inr (Candidate svalue serror))"

text \<open>
  The first loop (lines 277 to 284) over the records of the kind: at the first record with
  the same value the source is appended when it is new (and then the error overwritten when
  one is given), and the function returns. \<open>None\<close>: no record has the value.
  \<^verbatim>\<open>ct['source']\<close> raises \<^verbatim>\<open>KeyError\<close> on a record stored without a source.
\<close>

fun same_value :: "string \<Rightarrow> string \<Rightarrow> string \<Rightarrow> quantum list \<Rightarrow> (error + quantum list) option" where
  "same_value svalue serror source [] = None"
| "same_value svalue serror source (ct # cts) =
     (if q_value ct = svalue then
        (if source \<noteq> [] then
           (case q_source ct of
              None \<Rightarrow> Some (Inl KeyError)
            | Some s \<Rightarrow>
                if source \<notin> set (split_on CHR '','' s)
                then Some (Inr (ct\<lparr>q_source := Some (s @ '','' @ source),
                                    q_error := (if serror \<noteq> [] then Some serror else q_error ct)\<rparr>
                                # cts))
                else Some (Inr (ct # cts)))
         else Some (Inr (ct # cts)))
      else (case same_value svalue serror source cts of
              None \<Rightarrow> None
            | Some (Inl e) \<Rightarrow> Some (Inl e)
            | Some (Inr cts') \<Rightarrow> Some (Inr (ct # cts'))))"

text \<open>
  The second loop (lines 296 to 311), with its two variables \<^verbatim>\<open>newquantas\<close> and
  \<^verbatim>\<open>isworse\<close>. \<^verbatim>\<open>float\<close> raises \<^verbatim>\<open>ValueError\<close> on a string that is no number.
\<close>

fun better_loop ::
  "pyenv \<Rightarrow> string \<Rightarrow> nat \<Rightarrow> quantum list \<Rightarrow> quantum list \<Rightarrow> bool
     \<Rightarrow> error + quantum list \<times> bool" where
  "better_loop env serror newsig [] newquantas isworse = Inr (newquantas, isworse)"
| "better_loop env serror newsig (ct # cts) newquantas isworse =
     (case q_error ct of
        Some e \<Rightarrow>
          if serror \<noteq> [] then
            (if is_float env serror \<and> is_float env e then
               (if float_less env serror e
                then better_loop env serror newsig cts newquantas False
                else better_loop env serror newsig cts (newquantas @ [ct]) isworse)
             else Inl ValueError)
          else better_loop env serror newsig cts (newquantas @ [ct]) isworse
      | None \<Rightarrow>
          if serror \<noteq> [] then better_loop env serror newsig cts newquantas False
          else
            let oldsig = get_sig_digits (q_value ct) in
            better_loop env serror newsig cts
              (if oldsig \<ge> newsig then newquantas @ [ct] else newquantas)
              (if newsig \<ge> oldsig then False else isworse))"

text \<open>The new record, lines 286 to 291.\<close>

definition quantaentry :: "string \<Rightarrow> string \<Rightarrow> string \<Rightarrow> quantum" where
  "quantaentry svalue serror source =
     \<lparr>q_value = svalue,
      q_error = (if serror \<noteq> [] then Some serror else None),
      q_source = (if source \<noteq> [] then Some source else None)\<rparr>"

text \<open>Lines 277 to 316 on the quantity dictionary of \<^verbatim>\<open>events[name]\<close>.\<close>

definition insert_quanta ::
  "pyenv \<Rightarrow> (string \<times> quantum list) list \<Rightarrow> string \<Rightarrow> string \<Rightarrow> string \<Rightarrow> string \<Rightarrow> bool
     \<Rightarrow> error + (string \<times> quantum list) list" where
  "insert_quanta env qd quanta svalue serror source forcereplacebetter =
     (let entry = quantaentry svalue serror source
      in case map_of qd quanta of
           None \<Rightarrow> Inr (AList.update quanta [entry] qd)
         | Some cts \<Rightarrow>
             (case same_value svalue serror source cts of
                Some (Inl e) \<Rightarrow> Inl e
              | Some (Inr cts') \<Rightarrow> Inr (AList.update quanta cts' qd)
              | None \<Rightarrow>
                  if forcereplacebetter \<or> quanta \<in> set repbetterquanta then
                    (case better_loop env serror (get_sig_digits svalue) cts [] True of
                       Inl e \<Rightarrow> Inl e
                     | Inr (newquantas, isworse) \<Rightarrow>
                         Inr (AList.update quanta
                               (if \<not> isworse then newquantas @ [entry] else newquantas) qd))
                  else Inr (AList.update quanta (cts @ [entry]) qd)))"

text \<open>
  \<^verbatim>\<open>add_quanta\<close>. Every exception is raised before the first assignment, so a call that
  raises leaves the directory as it was. \<^verbatim>\<open>events[name]\<close> raises \<^verbatim>\<open>KeyError\<close> on an
  unknown name, at line 277.
\<close>

definition add_quanta ::
  "pyenv \<Rightarrow> events \<Rightarrow> string \<Rightarrow> string \<Rightarrow> string \<Rightarrow> string \<Rightarrow> bool \<Rightarrow> string
     \<Rightarrow> error option \<times> events" where
  "add_quanta env evs name quanta value source forcereplacebetter err =
     (case prepare env quanta value err of
        Inl e \<Rightarrow> (Some e, evs)
      | Inr Skip \<Rightarrow> (None, evs)
      | Inr (Candidate svalue serror) \<Rightarrow>
          (case map_of evs name of
             None \<Rightarrow> (Some KeyError, evs)
           | Some ev \<Rightarrow>
               (case insert_quanta env (ev_quanta ev) quanta svalue serror source
                       forcereplacebetter of
                  Inl e \<Rightarrow> (Some e, evs)
                | Inr qd \<Rightarrow> (None, AList.update name (ev\<lparr>ev_quanta := qd\<rparr>) evs))))"

text \<open>The records of one kind of one event (none when the name or the kind is absent).\<close>

definition records_of :: "events \<Rightarrow> string \<Rightarrow> string \<Rightarrow> quantum list" where
  "records_of evs name quanta =
     (case map_of evs name of
        None \<Rightarrow> []
      | Some ev \<Rightarrow> (case map_of (ev_quanta ev) quanta of None \<Rightarrow> [] | Some cts \<Rightarrow> cts))"

subsection \<open>The numeric builtins on plain decimal literals\<close>

text \<open>
  For the examples, the parameters are instantiated on plain decimal literals (an optional
  sign, digits, an optional point and digits), where \<^verbatim>\<open>float\<close> is the decimal value and
  its order. \<open>fmt_g\<close> returns its argument: \<^verbatim>\<open>'%g' % Decimal(s)\<close> is \<^verbatim>\<open>s\<close> itself for an
  unsigned literal of at most six significant digits, not below \<^verbatim>\<open>0.0001\<close>, without
  redundant zeros, which is all the examples apply it to. The Doppler formulas are given
  at the two inputs the examples use: for \<^verbatim>\<open>z = 0.069\<close> the velocity is
  \<^verbatim>\<open>299792.458 * (1.069**2 - 1) / (1.069**2 + 1) = 19973.6...\<close>, which \<^verbatim>\<open>pretty_num\<close>
  rounds to two significant digits as \<^verbatim>\<open>20000\<close>; for the velocity \<^verbatim>\<open>20000\<close> the
  redshift is \<^verbatim>\<open>sqrt((1 + 0.0667128) / (1 - 0.0667128)) - 1 = 0.0690...\<close>, rounded to
  one significant digit as \<^verbatim>\<open>0.07\<close>. Strings of other forms (exponents, \<^verbatim>\<open>inf\<close>,
  \<^verbatim>\<open>nan\<close>) are outside this instance.
\<close>

definition is_digit :: "char \<Rightarrow> bool" where
  "is_digit c \<longleftrightarrow> c \<in> set ''0123456789''"

definition unsigned_part :: "string \<Rightarrow> string" where
  "unsigned_part s =
     (case s of [] \<Rightarrow> [] | c # cs \<Rightarrow> if c = CHR ''-'' \<or> c = CHR ''+'' then cs else s)"

definition int_digits :: "string \<Rightarrow> string" where
  "int_digits s = takeWhile is_digit (unsigned_part s)"

definition frac_digits :: "string \<Rightarrow> string" where
  "frac_digits s = drop 1 (dropWhile is_digit (unsigned_part s))"

definition plain_decimal :: "string \<Rightarrow> bool" where
  "plain_decimal t \<longleftrightarrow>
     (let s = strip t; r = dropWhile is_digit (unsigned_part s) in
      (r = [] \<or> take 1 r = ''.'') \<and> list_all is_digit (frac_digits s)
      \<and> int_digits s @ frac_digits s \<noteq> [])"

definition digits_value :: "string \<Rightarrow> int" where
  "digits_value ds = foldl (\<lambda>n c. 10 * n + (int (of_char c) - 48)) 0 ds"

text \<open>The value of a literal times \<open>10 ^ k\<close>, for \<open>k\<close> at least its number of fraction digits.\<close>

definition scaled_value :: "nat \<Rightarrow> string \<Rightarrow> int" where
  "scaled_value k t =
     (let s = strip t;
          m = digits_value (int_digits s @ frac_digits s) * 10 ^ (k - length (frac_digits s))
      in if take 1 s = ''-'' then - m else m)"

definition plain_less :: "string \<Rightarrow> string \<Rightarrow> bool" where
  "plain_less a b =
     (let k = max (length (frac_digits (strip a))) (length (frac_digits (strip b)))
      in scaled_value k a < scaled_value k b)"

definition plain_env :: pyenv where
  "plain_env =
     \<lparr>is_float = plain_decimal,
      float_less = plain_less,
      float_negative = (\<lambda>s. plain_less s ''0''),
      fmt_g = (\<lambda>s. s),
      hvel_of_redshift = (\<lambda>z sig. if z = ''0.069'' \<and> sig = 2 then Inr ''20000''
                                   else Inl ValueError),
      redshift_of_hvel = (\<lambda>v sig. if v = ''20000'' \<and> sig = 1 then Inr ''0.07''
                                   else Inl ValueError)\<rparr>"

text \<open>The test of line 252 on the stripped value.\<close>

definition blank_value :: "string \<Rightarrow> bool" where
  "blank_value value \<longleftrightarrow> strip value = [] \<or> strip value = ''--'' \<or> strip value = ''-''"

text \<open>The event of the example after the first ingestion: redshift \<^verbatim>\<open>0.045\<close> with error
  \<^verbatim>\<open>0.001\<close> from source \<^verbatim>\<open>1\<close>.\<close>

definition redshift_dir :: events where
  "redshift_dir =
     snd (add_quanta plain_env (snd (add_event [] ''SN2000A'')) ''SN2000A'' ''redshift''
            ''0.045'' ''1'' False ''0.001'')"

text \<open>The record at which the first loop stops, after the source was appended.\<close>

definition merged :: "string \<Rightarrow> string \<Rightarrow> string \<Rightarrow> quantum \<Rightarrow> quantum" where
  "merged serror source s ct =
     ct\<lparr>q_source := Some (s @ '','' @ source),
        q_error := (if serror \<noteq> [] then Some serror else q_error ct)\<rparr>"

text \<open>An event with one claimed type, from source \<^verbatim>\<open>1\<close>.\<close>

definition type_dir :: events where
  "type_dir =
     snd (add_quanta plain_env (snd (add_event [] ''SN2000A'')) ''SN2000A'' ''claimedtype''
            ''Ia'' ''1'' False [])"

text \<open>An event with two redshifts of equal precision and no error, from source \<^verbatim>\<open>1\<close>.\<close>

definition two_redshift_dir :: events where
  "two_redshift_dir =
     snd (add_quanta plain_env
            (snd (add_quanta plain_env (snd (add_event [] ''SN2000A'')) ''SN2000A'' ''redshift''
                    ''0.045'' ''1'' False []))
            ''SN2000A'' ''redshift'' ''0.046'' ''1'' False [])"

text \<open>The records that a candidate with an error keeps: those whose own error is not larger.\<close>

definition keeps_errored :: "pyenv \<Rightarrow> string \<Rightarrow> quantum \<Rightarrow> bool" where
  "keeps_errored env serror ct =
     (case q_error ct of None \<Rightarrow> False | Some e \<Rightarrow> \<not> float_less env serror e)"

text \<open>An event with one redshift without error.\<close>

definition errorless_dir :: events where
  "errorless_dir =
     snd (add_quanta plain_env (snd (add_event [] ''SN2000A'')) ''SN2000A'' ''redshift''
            ''0.045'' ''1'' False [])"

section \<open>Sources: \<^verbatim>\<open>get_source\<close>\<close>

text \<open>
  \<^verbatim>\<open>get_source\<close> returns the alias of the citation of the event with the given reference
  name, appending the citation under the next number when there is none. The name of a
  citation given by bibcode alone is the bibcode. \<^verbatim>\<open>secondary\<close> is used as a truth
  value. The function raises \<^verbatim>\<open>KeyError\<close> on an unknown event and \<^verbatim>\<open>ValueError\<close> when
  neither reference nor bibcode is given, both before any assignment.
\<close>

definition get_source ::
  "events \<Rightarrow> string \<Rightarrow> string \<Rightarrow> string \<Rightarrow> string \<Rightarrow> bool \<Rightarrow> (error + string) \<times> events" where
  "get_source evs name reference url bibcode secondary =
     (case map_of evs name of
        None \<Rightarrow> (Inl KeyError, evs)
      | Some ev \<Rightarrow>
          let nsources = (case ev_sources ev of None \<Rightarrow> 0 | Some ss \<Rightarrow> length ss) in
          if reference = [] \<and> bibcode = [] then (Inl ValueError, evs)
          else
            let url = (if reference = [] then ''http://adsabs.harvard.edu/abs/'' @ bibcode
                       else url);
                reference = (if reference = [] then bibcode else reference)
            in case (case ev_sources ev of
                       None \<Rightarrow> None
                     | Some ss \<Rightarrow> find (\<lambda>s. s_name s = reference) ss) of
                 None \<Rightarrow>
                   let source = str_nat (nsources + 1);
                       newsource = \<lparr>s_name = reference,
                                    s_url = (if url \<noteq> [] then Some url else None),
                                    s_bibcode = (if bibcode \<noteq> [] then Some bibcode else None),
                                    s_alias = source,
                                    s_secondary = secondary\<rparr>
                   in (Inr source,
                       AList.update name
                         (ev\<lparr>ev_sources :=
                               Some ((case ev_sources ev of None \<Rightarrow> [] | Some ss \<Rightarrow> ss)
                                     @ [newsource])\<rparr>) evs)
               | Some s \<Rightarrow> (Inr (s_alias s), evs))"

text \<open>The citations of an event (none when the name or the key is absent).\<close>

definition sources_of :: "events \<Rightarrow> string \<Rightarrow> source list" where
  "sources_of evs name =
     (case map_of evs name of
        None \<Rightarrow> []
      | Some ev \<Rightarrow> (case ev_sources ev of None \<Rightarrow> [] | Some ss \<Rightarrow> ss))"

text \<open>A sequence of calls of \<^verbatim>\<open>get_source\<close> for one event, each with its reference, url,
  bibcode and secondary flag; a call that raises changes nothing.\<close>

fun get_sources :: "events \<Rightarrow> string \<Rightarrow> (string \<times> string \<times> string \<times> bool) list \<Rightarrow> events" where
  "get_sources evs name [] = evs"
| "get_sources evs name ((reference, url, bibcode, secondary) # calls) =
     get_sources (snd (get_source evs name reference url bibcode secondary)) name calls"

text \<open>The names of the citations are distinct and their aliases are \<^verbatim>\<open>'1'\<close>, \<^verbatim>\<open>'2'\<close>, ...
  in order.\<close>

definition citations_ok :: "source list \<Rightarrow> bool" where
  "citations_ok ss \<longleftrightarrow>
     distinct (map s_name ss) \<and> [] \<notin> set (map s_name ss)
     \<and> map s_alias ss = map str_nat [1..<Suc (length ss)]"

text \<open>An event that cites a paper and a catalogue.\<close>

definition cited_dir :: events where
  "cited_dir =
     get_sources (snd (add_event [] ''SN2000A'')) ''SN2000A''
       [([], [], ''2014MNRAS.442..844F'', False),
        (''SUSPECT'', ''https://www.nhn.ou.edu/~suspect/'', [], True),
        (''2014MNRAS.442..844F'', [], [], False)]"

text \<open>The citation that \<^verbatim>\<open>get_source\<close> appends, lines 147 to 156.\<close>

definition newsource :: "nat \<Rightarrow> string \<Rightarrow> string \<Rightarrow> string \<Rightarrow> bool \<Rightarrow> source" where
  "newsource nsources reference url bibcode secondary =
     \<lparr>s_name = (if reference = [] then bibcode else reference),
      s_url = (if reference = [] then Some (''http://adsabs.harvard.edu/abs/'' @ bibcode)
               else if url \<noteq> [] then Some url else None),
      s_bibcode = (if bibcode \<noteq> [] then Some bibcode else None),
      s_alias = str_nat (nsources + 1),
      s_secondary = secondary\<rparr>"

section \<open>The final pass: velocity from redshift, redshift from velocity\<close>







section \<open>Photometry: first light and maximum light\<close>

text \<open>
  \<^verbatim>\<open>min(xs)\<close> on a non-empty list keeps the first element and replaces it by each later
  element that is smaller; \<^verbatim>\<open>xs.index(v)\<close> is the first position holding \<open>v\<close>.
\<close>

fun py_min :: "('a \<Rightarrow> 'a \<Rightarrow> bool) \<Rightarrow> 'a list \<Rightarrow> 'a option" where
  "py_min lt [] = None"
| "py_min lt (x # xs) = Some (fold (\<lambda>y m. if lt y m then y else m) xs x)"

fun index :: "'a list \<Rightarrow> 'a \<Rightarrow> nat option" where
  "index [] v = None"
| "index (x # xs) v = (if x = v then Some 0 else map_option Suc (index xs v))"

text \<open>The order of Python on strings: lexicographic, by code point.\<close>

fun str_less :: "string \<Rightarrow> string \<Rightarrow> bool" where
  "str_less [] [] = False"
| "str_less [] (y # ys) = True"
| "str_less (x # xs) [] = False"
| "str_less (x # xs) (y # ys) =
     ((of_char x :: nat) < of_char y \<or> (x = y \<and> str_less xs ys))"

text \<open>
  What the two functions take from outside the script:
  \<^item> \<open>decimal s\<close>: the value of \<^verbatim>\<open>Decimal(s)\<close> in a linear order, \<open>None\<close> for a NaN, on
    which every comparison raises \<^verbatim>\<open>InvalidOperation\<close>;
  \<^item> \<open>mjd_date t\<close>: \<^verbatim>\<open>astrotime(float(t), format='mjd').datetime\<close>, as the three strings
    \<^verbatim>\<open>pretty_num\<close> makes of its year, month and day, or the exception raised on the way;
  \<^item> \<open>pretty_mag s\<close>: \<^verbatim>\<open>pretty_num(Decimal(s))\<close>.
\<close>

record 'd calendar =
  decimal :: "string \<Rightarrow> 'd option"
  mjd_date :: "string \<Rightarrow> error + string \<times> string \<times> string"
  pretty_mag :: "string \<Rightarrow> string"

text \<open>
  \<^verbatim>\<open>get_max_light\<close>: the date of the point with the least magnitude and that magnitude (here
  the string of the point, which \<^verbatim>\<open>set_first_max_light\<close> prints with \<^verbatim>\<open>pretty_num\<close>).
  \<^verbatim>\<open>min\<close> raises \<^verbatim>\<open>ValueError\<close> on an empty list; a NaN makes the comparison raise, or,
  when it is the only magnitude, makes \<^verbatim>\<open>index\<close> raise \<^verbatim>\<open>ValueError\<close>.
\<close>

definition get_max_light ::
  "('d::linorder) calendar \<Rightarrow> event \<Rightarrow> error + ((string \<times> string \<times> string) \<times> string) option" where
  "get_max_light cal ev =
     (case ev_photometry ev of
        None \<Rightarrow> Inr None
      | Some photometry \<Rightarrow>
          let eventphoto = map (\<lambda>p. decimal cal (p_abmag p)) photometry in
          if None \<in> set eventphoto
          then (if length eventphoto = 1 then Inl ValueError else Inl InvalidOperation)
          else
            (case py_min (<) (map the eventphoto) of
               None \<Rightarrow> Inl ValueError
             | Some mlmag \<Rightarrow>
                 (case index (map the eventphoto) mlmag of
                    None \<Rightarrow> Inl ValueError
                  | Some mlindex \<Rightarrow>
                      (case mjd_date cal (p_time (photometry ! mlindex)) of
                         Inl e \<Rightarrow> Inl e
                       | Inr dt \<Rightarrow> Inr (Some (dt, p_abmag (photometry ! mlindex)))))))"

text \<open>\<^verbatim>\<open>get_first_light\<close>: \<^verbatim>\<open>eventtime\<close> is the list of the stored time strings, and \<^verbatim>\<open>min\<close>
  compares them as strings.\<close>

definition get_first_light ::
  "'d calendar \<Rightarrow> event \<Rightarrow> error + (string \<times> string \<times> string) option" where
  "get_first_light cal ev =
     (case ev_photometry ev of
        None \<Rightarrow> Inr None
      | Some photometry \<Rightarrow>
          let eventtime = map p_time photometry in
          (case py_min str_less eventtime of
             None \<Rightarrow> Inl ValueError
           | Some first \<Rightarrow>
               (case index eventtime first of
                  None \<Rightarrow> Inl ValueError
                | Some flindex \<Rightarrow>
                    (case mjd_date cal (p_time (photometry ! flindex)) of
                       Inl e \<Rightarrow> Inl e
                     | Inr dt \<Rightarrow> Inr (Some dt)))))"

text \<open>\<^verbatim>\<open>set_first_max_light\<close>. The maximum-light keys are assigned before
  \<^verbatim>\<open>get_first_light\<close> is called, so they stay when that call raises.\<close>

definition set_first_max_light ::
  "('d::linorder) calendar \<Rightarrow> events \<Rightarrow> string \<Rightarrow> error option \<times> events" where
  "set_first_max_light cal evs name =
     (case map_of evs name of
        None \<Rightarrow> (Some KeyError, evs)
      | Some ev \<Rightarrow>
          (case get_max_light cal ev of
             Inl e \<Rightarrow> (Some e, evs)
           | Inr ml \<Rightarrow>
               let ev1 = (case ml of
                            None \<Rightarrow> ev
                          | Some ((year, month, day), mlmag) \<Rightarrow>
                              ev\<lparr>ev_scalars :=
                                   AList.update ''maxappmag'' (pretty_mag cal mlmag)
                                     (AList.update ''maxday'' day
                                       (AList.update ''maxmonth'' month
                                         (AList.update ''maxyear'' year (ev_scalars ev))))\<rparr>)
               in (case get_first_light cal ev1 of
                     Inl e \<Rightarrow> (Some e, AList.update name ev1 evs)
                   | Inr fl \<Rightarrow>
                       let ev2 = (case fl of
                                    None \<Rightarrow> ev1
                                  | Some (year, month, day) \<Rightarrow>
                                      ev1\<lparr>ev_scalars :=
                                            AList.update ''discoverday'' day
                                              (AList.update ''discovermonth'' month
                                                (AList.update ''discoveryear'' year
                                                  (ev_scalars ev1)))\<rparr>)
                       in (None, AList.update name ev2 evs))))"

text \<open>Two photometry points, the earlier one at MJD 9999.5 and the later, brighter one at
  MJD 10000.5.\<close>

definition two_points :: "photo list" where
  "two_points =
     [\<lparr>p_timeunit = ''MJD'', p_time = ''9999.5'', p_band = ''V'', p_abmag = ''15''\<rparr>,
      \<lparr>p_timeunit = ''MJD'', p_time = ''10000.5'', p_band = ''V'', p_abmag = ''14''\<rparr>]"

section \<open>The catalog: \<^verbatim>\<open>copy_entry_to_entry\<close>\<close>

text \<open>
  \<^verbatim>\<open>Catalog.copy_entry_to_entry\<close> copies the items of one entry into another while a merge
  runs. The \<^verbatim>\<open>Entry\<close> class, its key table and \<^verbatim>\<open>uniq_cdl\<close> are not part of the sources at
  hand, so the model takes what the function calls as parameters, over any type \<open>'d\<close> of
  destination entries:
  \<^item> \<open>no_source key\<close>: the flag \<^verbatim>\<open>fromentry._KEYS.get_key_by_name(key).no_source\<close>;
  \<^item> \<open>add_source d src\<close>: \<^verbatim>\<open>destentry.add_source(**source)\<close>, the alias it returns and the
    entry it leaves, or the exception it raises; likewise \<open>add_photometry\<close>,
    \<open>add_spectrum\<close>, \<open>add_error\<close> and \<open>add_quantity\<close>, which return nothing;
  \<^item> \<open>append_error d err\<close>: \<^verbatim>\<open>destentry.setdefault(ERRORS, []).append(err)\<close>;
  \<^item> \<open>uniq_cdl\<close>: the function of that name.
  An item is a dictionary: its \<^verbatim>\<open>'source'\<close> key, which may be absent, and its other fields.
  A source of the entry copied from is its \<^verbatim>\<open>'alias'\<close> key, which may be absent, and its
  other fields. The entry copied from is its \<^verbatim>\<open>sources\<close> and \<^verbatim>\<open>errors\<close> keys, which may be
  absent, and all its keys in order, each with the list of its items (a key whose value is
  no list of items is flagged \<open>no_source\<close> in the key table, and is skipped).
\<close>

record 'a item =
  it_source :: "string option"
  it_fields :: 'a

record ('d, 'a, 's) entry_ops =
  no_source :: "string \<Rightarrow> bool"
  add_source :: "'d \<Rightarrow> 's \<Rightarrow> error + string \<times> 'd"
  add_photometry :: "'d \<Rightarrow> 'a item \<Rightarrow> error + 'd"
  add_spectrum :: "'d \<Rightarrow> 'a item \<Rightarrow> error + 'd"
  add_error :: "'d \<Rightarrow> 'a item \<Rightarrow> error + 'd"
  add_quantity :: "'d \<Rightarrow> string \<Rightarrow> 'a item \<Rightarrow> error + 'd"
  append_error :: "'d \<Rightarrow> 'a item \<Rightarrow> 'd"
  uniq_cdl :: "string list \<Rightarrow> string"

record ('a, 's) fromentry =
  fe_sources :: "(string option \<times> 's) list option"
  fe_errors :: "'a item list option"
  fe_keys :: "(string \<times> 'a item list) list"

text \<open>The first loop: \<^verbatim>\<open>alias = source.pop(SOURCE.ALIAS)\<close> raises \<^verbatim>\<open>KeyError\<close> on a source
  without alias; a later source replaces an earlier one of the same alias.\<close>

fun newsourcealiases ::
  "(string option \<times> 's) list \<Rightarrow> (string \<times> 's) list \<Rightarrow> error + (string \<times> 's) list" where
  "newsourcealiases [] acc = Inr acc"
| "newsourcealiases ((None, src) # srcs) acc = Inl KeyError"
| "newsourcealiases ((Some a, src) # srcs) acc = newsourcealiases srcs (AList.update a src acc)"

text \<open>The loop over the aliases that one item cites.\<close>

fun remap_sources ::
  "('d, 'a, 's) entry_ops \<Rightarrow> (string \<times> 's) list \<Rightarrow> 'd \<Rightarrow> string list \<Rightarrow> string list
     \<Rightarrow> error + string list \<times> 'd" where
  "remap_sources ops aliases dest [] nsid = Inr (nsid, dest)"
| "remap_sources ops aliases dest (sid # sids) nsid =
     (case map_of aliases sid of
        None \<Rightarrow> Inl ValueError
      | Some src \<Rightarrow>
          (case add_source ops dest src of
             Inl e \<Rightarrow> Inl e
           | Inr (a, dest') \<Rightarrow> remap_sources ops aliases dest' sids (nsid @ [a])))"

text \<open>The dispatch on the key, lines 637 to 645.\<close>

definition add_item :: "('d, 'a, 's) entry_ops \<Rightarrow> string \<Rightarrow> 'd \<Rightarrow> 'a item \<Rightarrow> error + 'd" where
  "add_item ops key dest item =
     (if key = ''photometry'' then add_photometry ops dest item
      else if key = ''spectra'' then add_spectrum ops dest item
      else if key = ''errors'' then add_error ops dest item
      else add_quantity ops dest key item)"

text \<open>The loop over the items of one key.\<close>

fun copy_items ::
  "('d, 'a, 's) entry_ops \<Rightarrow> (string \<times> 's) list \<Rightarrow> string \<Rightarrow> 'd \<Rightarrow> 'a item list
     \<Rightarrow> error + 'd" where
  "copy_items ops aliases key dest [] = Inr dest"
| "copy_items ops aliases key dest (item # items) =
     (case it_source item of
        None \<Rightarrow> Inl ValueError
      | Some s \<Rightarrow>
          (case remap_sources ops aliases dest (split_on CHR '','' s) [] of
             Inl e \<Rightarrow> Inl e
           | Inr (nsid, dest') \<Rightarrow>
               (case add_item ops key dest' (item\<lparr>it_source := Some (uniq_cdl ops nsid)\<rparr>) of
                  Inl e \<Rightarrow> Inl e
                | Inr dest'' \<Rightarrow> copy_items ops aliases key dest'' items)))"

text \<open>The loop over the keys.\<close>

fun copy_keys ::
  "('d, 'a, 's) entry_ops \<Rightarrow> (string \<times> 's) list \<Rightarrow> 'd \<Rightarrow> (string \<times> 'a item list) list
     \<Rightarrow> error + 'd" where
  "copy_keys ops aliases dest [] = Inr dest"
| "copy_keys ops aliases dest ((key, items) # rest) =
     (if no_source ops key then copy_keys ops aliases dest rest
      else (case copy_items ops aliases key dest items of
              Inl e \<Rightarrow> Inl e
            | Inr dest' \<Rightarrow> copy_keys ops aliases dest' rest))"

definition copy_entry_to_entry ::
  "('d, 'a, 's) entry_ops \<Rightarrow> ('a, 's) fromentry \<Rightarrow> 'd \<Rightarrow> error + 'd" where
  "copy_entry_to_entry ops fromentry destentry =
     (case newsourcealiases (case fe_sources fromentry of None \<Rightarrow> [] | Some srcs \<Rightarrow> srcs) [] of
        Inl e \<Rightarrow> Inl e
      | Inr aliases \<Rightarrow>
          copy_keys ops aliases
            (fold (\<lambda>err d. append_error ops d err)
               (case fe_errors fromentry of None \<Rightarrow> [] | Some errs \<Rightarrow> errs) destentry)
            (fe_keys fromentry))"

text \<open>The aliases of the sources of the entry copied from.\<close>

definition registry :: "('a, 's) fromentry \<Rightarrow> string set" where
  "registry fromentry =
     {a. \<exists>src. (Some a, src) \<in> set (case fe_sources fromentry of None \<Rightarrow> [] | Some srcs \<Rightarrow> srcs)}"

text \<open>An item is sound when it has a \<^verbatim>\<open>'source'\<close> key and every alias in it is in the
  registry.\<close>

definition sound_item :: "('a, 's) fromentry \<Rightarrow> 'a item \<Rightarrow> bool" where
  "sound_item fromentry item \<longleftrightarrow>
     (case it_source item of
        None \<Rightarrow> False
      | Some s \<Rightarrow> set (split_on CHR '','' s) \<subseteq> registry fromentry)"

text \<open>
  For the examples: a destination entry that records the keys of the items it was given,
  whose \<^verbatim>\<open>add_source\<close> always answers \<^verbatim>\<open>'1'\<close>; an entry whose redshift has no source;
  and an entry whose redshift cites the aliases \<^verbatim>\<open>1\<close> and \<^verbatim>\<open>3\<close>, of which only the
  first is an alias of its sources.
\<close>

definition log_ops :: "(string list, unit, unit) entry_ops" where
  "log_ops =
     \<lparr>no_source = (\<lambda>key. key \<in> set [''name'', ''schema'', ''sources'']),
      add_source = (\<lambda>d src. Inr (''1'', d)),
      add_photometry = (\<lambda>d item. Inr (d @ [''photometry''])),
      add_spectrum = (\<lambda>d item. Inr (d @ [''spectra''])),
      add_error = (\<lambda>d item. Inr (d @ [''errors''])),
      add_quantity = (\<lambda>d key item. Inr (d @ [key])),
      append_error = (\<lambda>d item. d @ [''errors'']),
      uniq_cdl = join '',''\<rparr>"

definition unsourced_entry :: "(unit, unit) fromentry" where
  "unsourced_entry =
     \<lparr>fe_sources = Some [(Some ''1'', ())],
      fe_errors = None,
      fe_keys = [(''name'', []), (''sources'', []),
                 (''redshift'', [\<lparr>it_source = None, it_fields = ()\<rparr>])]\<rparr>"

definition dangling_entry :: "(unit, unit) fromentry" where
  "dangling_entry =
     \<lparr>fe_sources = Some [(Some ''1'', ())],
      fe_errors = None,
      fe_keys = [(''name'', []), (''sources'', []),
                 (''redshift'', [\<lparr>it_source = Some ''1,3'', it_fields = ()\<rparr>])]\<rparr>"

section \<open>Properties of the entity directory\<close>

lemma update_fresh: "k \<notin> fst ` set al \<Longrightarrow> AList.update k v al = al @ [(k, v)]"
  by (induction al) auto

lemma map_of_fresh_snoc: "k \<notin> fst ` set al \<Longrightarrow> map_of (al @ [(k, v)]) k = Some v"
  by (induction al) auto

lemma update_snoc: "k \<notin> fst ` set al \<Longrightarrow> AList.update k w (al @ [(k, v)]) = al @ [(k, w)]"
  by (induction al) auto

lemma aliases_of_mem:
  "k \<in> set (aliases_of ev) \<Longrightarrow> \<exists>as. ev_aliases ev = Some as \<and> k \<in> set as"
  by (cases "ev_aliases ev") (auto simp: aliases_of_def)


lemma alias_scan_some:
  "\<forall>(k, ev) \<in> set evs. k \<in> set (aliases_of ev) \<Longrightarrow> name \<notin> fst ` set evs \<Longrightarrow>
   \<exists>(k, ev) \<in> set evs. name \<in> set (aliases_of ev) \<Longrightarrow>
   \<exists>k ev. alias_scan name evs = Inr (Some k) \<and> (k, ev) \<in> set evs \<and> name \<in> set (aliases_of ev)"
proof (induction evs)
  case Nil
  then show ?case by simp
next
  case (Cons p evs)
  obtain k ev where p: "p = (k, ev)" by (cases p)
  from Cons.prems(1) p have "k \<in> set (aliases_of ev)" by auto
  then obtain as where as: "ev_aliases ev = Some as" "k \<in> set as"
    using aliases_of_mem by blast
  show ?case
  proof (cases "name \<in> set as")
    case True
    with as Cons.prems(2) p have "length as > 1"
      by (cases as; cases "tl as") auto
    with True as p show ?thesis by (auto simp: aliases_of_def)
  next
    case False
    with Cons.prems as p have "\<exists>(k, ev) \<in> set evs. name \<in> set (aliases_of ev)"
      by (auto simp: aliases_of_def)
    with Cons.IH Cons.prems obtain k' ev' where
      "alias_scan name evs = Inr (Some k')" "(k', ev') \<in> set evs" "name \<in> set (aliases_of ev')"
      by auto
    with False as p show ?thesis by auto
  qed
qed

lemma add_alias_new:
  assumes "name \<notin> fst ` set evs"
  shows "add_alias (AList.update name (new_event name) evs) name name
         = (None, evs @ [(name, (new_event name)\<lparr>ev_aliases := Some [name]\<rparr>)])"
proof -
  have u: "AList.update name (new_event name) evs = evs @ [(name, new_event name)]"
    using assms by (rule update_fresh)
  have m: "map_of (evs @ [(name, new_event name)]) name = Some (new_event name)"
    using assms by (rule map_of_fresh_snoc)
  have a: "ev_aliases (new_event name) = None" by (simp add: new_event_def)
  show ?thesis
    unfolding add_alias_def u m using a assms by (simp add: update_snoc)
qed

lemma add_event_new:
  assumes "name \<notin> fst ` set evs" "alias_scan name evs = Inr None"
  shows "add_event evs name = (Inr name, evs @ [(name, (new_event name)\<lparr>ev_aliases := Some [name]\<rparr>)])"
  using assms by (simp add: add_event_def add_alias_new)



lemma shared_alias_dir_eq:
  "shared_alias_dir = [(''SN2011fe'', (new_event ''SN2011fe'')\<lparr>ev_aliases := Some [''SN2011fe'', ''PTF11kly'']\<rparr>),
                    (''PSN J1403'', (new_event ''PSN J1403'')\<lparr>ev_aliases := Some [''PSN J1403'', ''PTF11kly'']\<rparr>)]"
  by (simp add: shared_alias_dir_def add_event_def add_alias_def new_event_def)

lemma alias_scan_none_conv:
  assumes "own_name_aliased evs" "name \<notin> fst ` set evs" "alias_scan name evs = Inr None"
  shows "\<forall>(k, ev) \<in> set evs. name \<notin> set (aliases_of ev)"
proof (rule ccontr)
  assume "\<not> ?thesis"
  then have "\<exists>(k, ev) \<in> set evs. name \<in> set (aliases_of ev)" by auto
  with alias_scan_some [of evs name] assms show False
    by (auto simp: own_name_aliased_def)
qed

lemma alias_scan_no_error:
  "own_name_aliased evs \<Longrightarrow> alias_scan name evs \<noteq> Inl e"
  by (induction evs) (auto simp: own_name_aliased_def aliases_of_def split: option.splits if_splits)

subsection \<open>Resolving a name\<close>



subsection \<open>Alias lists of distinct events\<close>

lemma set_update_distinct:
  "distinct (map fst al) \<Longrightarrow> set (AList.update k v al) = insert (k, v) {p \<in> set al. fst p \<noteq> k}"
  by (induction al) (auto simp: rev_image_eqI)

lemma add_alias_shape:
  assumes "own_name_aliased evs"
  shows "snd (add_alias evs name alias) = evs \<or>
         (\<exists>ev as. (name, ev) \<in> set evs \<and> ev_aliases ev = Some as \<and>
            snd (add_alias evs name alias)
              = AList.update name (ev\<lparr>ev_aliases := Some (as @ [alias])\<rparr>) evs)"
proof (cases "map_of evs name")
  case None
  then show ?thesis by (simp add: add_alias_def)
next
  case (Some ev)
  then have m: "(name, ev) \<in> set evs" by (rule map_of_SomeD)
  with assms have "name \<in> set (aliases_of ev)" by (auto simp: own_name_aliased_def)
  then obtain as where "ev_aliases ev = Some as" using aliases_of_mem by blast
  with Some m show ?thesis by (auto simp: add_alias_def)
qed

lemma add_event_shape:
  assumes "own_name_aliased evs"
  shows "snd (add_event evs name) = evs \<or>
         (name \<notin> fst ` set evs \<and> (\<forall>(k, ev) \<in> set evs. name \<notin> set (aliases_of ev)) \<and>
          snd (add_event evs name) = evs @ [(name, (new_event name)\<lparr>ev_aliases := Some [name]\<rparr>)])"
proof (cases "name \<in> fst ` set evs")
  case True
  then show ?thesis by (simp add: add_event_def)
next
  case False
  show ?thesis
  proof (cases "alias_scan name evs")
    case (Inl e)
    with False show ?thesis by (simp add: add_event_def)
  next
    case (Inr r)
    show ?thesis
    proof (cases r)
      case None
      with Inr False assms alias_scan_none_conv [of evs name] add_event_new [of name evs]
      show ?thesis by simp
    next
      case (Some k)
      with Inr False show ?thesis by (simp add: add_event_def)
    qed
  qed
qed

lemma well_keyed_add_event:
  assumes "well_keyed evs"
  shows "well_keyed (snd (add_event evs name))"
proof -
  from assms have o: "own_name_aliased evs" by (simp add: well_keyed_def)
  from add_event_shape [OF o, of name] show ?thesis
  proof
    assume "snd (add_event evs name) = evs"
    with assms show ?thesis by simp
  next
    assume "name \<notin> fst ` set evs \<and> (\<forall>(k, ev) \<in> set evs. name \<notin> set (aliases_of ev)) \<and>
          snd (add_event evs name) = evs @ [(name, (new_event name)\<lparr>ev_aliases := Some [name]\<rparr>)]"
    with assms show ?thesis
      by (auto simp: well_keyed_def own_name_aliased_def aliases_of_def)
  qed
qed

lemma well_keyed_add_alias:
  assumes "well_keyed evs"
  shows "well_keyed (snd (add_alias evs name alias))"
proof -
  from assms have o: "own_name_aliased evs" and d: "distinct (map fst evs)"
    by (simp_all add: well_keyed_def)
  from add_alias_shape [OF o, of name "alias"] show ?thesis
  proof
    assume "snd (add_alias evs name alias) = evs"
    with assms show ?thesis by simp
  next
    assume "\<exists>ev as. (name, ev) \<in> set evs \<and> ev_aliases ev = Some as \<and>
            snd (add_alias evs name alias)
              = AList.update name (ev\<lparr>ev_aliases := Some (as @ [alias])\<rparr>) evs"
    then obtain ev as where e: "(name, ev) \<in> set evs" "ev_aliases ev = Some as"
      "snd (add_alias evs name alias)
              = AList.update name (ev\<lparr>ev_aliases := Some (as @ [alias])\<rparr>) evs" by blast
    from e(1,2) o have "name \<in> set as" by (auto simp: own_name_aliased_def aliases_of_def)
    with e d o show ?thesis
      by (auto simp: well_keyed_def own_name_aliased_def set_update_distinct aliases_of_def
            distinct_update)
  qed
qed

lemma reachable_well_keyed: "reachable evs \<Longrightarrow> well_keyed evs"
proof (induction rule: reachable.induct)
  case r_start
  show ?case by (simp add: well_keyed_def own_name_aliased_def)
next
  case (r_event evs name)
  then show ?case by (simp add: well_keyed_add_event)
next
  case (r_alias evs name al)
  then show ?case by (simp add: well_keyed_add_alias)
qed

lemma aliases_disjointD:
  "aliases_disjoint evs \<Longrightarrow> (k1, e1) \<in> set evs \<Longrightarrow> (k2, e2) \<in> set evs \<Longrightarrow> k1 \<noteq> k2
   \<Longrightarrow> set (aliases_of e1) \<inter> set (aliases_of e2) = {}"
  unfolding aliases_disjoint_def by blast

lemma disjoint_snoc:
  assumes "aliases_disjoint evs"
    and "\<And>k' e'. (k', e') \<in> set evs \<Longrightarrow> set (aliases_of e) \<inter> set (aliases_of e') = {}"
  shows "aliases_disjoint (evs @ [(k, e)])"
  unfolding aliases_disjoint_def
proof (intro ballI, clarify)
  fix k1 e1 k2 e2
  assume m: "(k1, e1) \<in> set (evs @ [(k, e)])" "(k2, e2) \<in> set (evs @ [(k, e)])" and ne: "k1 \<noteq> k2"
  consider "(k1, e1) \<in> set evs" "(k2, e2) \<in> set evs"
    | "(k1, e1) = (k, e)" "(k2, e2) \<in> set evs"
    | "(k1, e1) \<in> set evs" "(k2, e2) = (k, e)"
    | "(k1, e1) = (k, e)" "(k2, e2) = (k, e)"
    using m by auto
  then show "set (aliases_of e1) \<inter> set (aliases_of e2) = {}"
  proof cases
    case 1
    with assms(1) ne show ?thesis unfolding aliases_disjoint_def by blast
  next
    case 2
    with assms(2) [of k2 e2] show ?thesis by simp
  next
    case 3
    with assms(2) [of k1 e1] show ?thesis by (simp add: Int_commute)
  next
    case 4
    with ne show ?thesis by simp
  qed
qed

lemma disjoint_add_event:
  assumes "well_keyed evs" "aliases_disjoint evs"
  shows "aliases_disjoint (snd (add_event evs name))"
proof -
  from assms have o: "own_name_aliased evs" by (simp add: well_keyed_def)
  from add_event_shape [OF o, of name] show ?thesis
  proof
    assume "snd (add_event evs name) = evs"
    with assms show ?thesis by simp
  next
    assume "name \<notin> fst ` set evs \<and> (\<forall>(k, ev) \<in> set evs. name \<notin> set (aliases_of ev)) \<and>
          snd (add_event evs name) = evs @ [(name, (new_event name)\<lparr>ev_aliases := Some [name]\<rparr>)]"
    then have f: "\<And>k' e'. (k', e') \<in> set evs \<Longrightarrow> name \<notin> set (aliases_of e')"
      and r: "snd (add_event evs name) = evs @ [(name, (new_event name)\<lparr>ev_aliases := Some [name]\<rparr>)]"
      by auto
    have n: "aliases_of ((new_event name)\<lparr>ev_aliases := Some [name]\<rparr>) = [name]"
      by (simp add: aliases_of_def)
    show ?thesis unfolding r
      by (rule disjoint_snoc [OF assms(2)]) (simp add: n f)
  qed
qed

lemma disjoint_update:
  assumes d: "distinct (map fst evs)" and a: "aliases_disjoint evs"
    and o: "\<And>k' e'. (k', e') \<in> set evs \<Longrightarrow> k' \<noteq> k
              \<Longrightarrow> set (aliases_of e) \<inter> set (aliases_of e') = {}"
  shows "aliases_disjoint (AList.update k e evs)"
  unfolding aliases_disjoint_def set_update_distinct [OF d]
proof (intro ballI, clarify)
  fix k1 e1 k2 e2
  assume m1: "(k1, e1) \<in> insert (k, e) {p \<in> set evs. fst p \<noteq> k}"
    and m2: "(k2, e2) \<in> insert (k, e) {p \<in> set evs. fst p \<noteq> k}" and ne: "k1 \<noteq> k2"
  consider "(k1, e1) \<in> set evs" "k1 \<noteq> k" "(k2, e2) \<in> set evs" "k2 \<noteq> k"
    | "(k1, e1) = (k, e)" "(k2, e2) \<in> set evs" "k2 \<noteq> k"
    | "(k1, e1) \<in> set evs" "k1 \<noteq> k" "(k2, e2) = (k, e)"
    | "(k1, e1) = (k, e)" "(k2, e2) = (k, e)"
    using m1 m2 by auto
  then show "set (aliases_of e1) \<inter> set (aliases_of e2) = {}"
  proof cases
    case 1
    with aliases_disjointD [OF a] ne show ?thesis by blast
  next
    case 2
    with o [of k2 e2] show ?thesis by simp
  next
    case 3
    with o [of k1 e1] show ?thesis by (simp add: Int_commute)
  next
    case 4
    with ne show ?thesis by simp
  qed
qed

lemma disjoint_add_alias:
  assumes "well_keyed evs" "aliases_disjoint evs"
    and fresh: "\<forall>(k, ev) \<in> set evs. k \<noteq> name \<longrightarrow> alias \<notin> set (aliases_of ev)"
  shows "aliases_disjoint (snd (add_alias evs name alias))"
proof -
  from assms have o: "own_name_aliased evs" and d: "distinct (map fst evs)"
    by (simp_all add: well_keyed_def)
  from add_alias_shape [OF o, of name "alias"] show ?thesis
  proof
    assume "snd (add_alias evs name alias) = evs"
    with assms show ?thesis by simp
  next
    assume "\<exists>ev as. (name, ev) \<in> set evs \<and> ev_aliases ev = Some as \<and>
            snd (add_alias evs name alias)
              = AList.update name (ev\<lparr>ev_aliases := Some (as @ [alias])\<rparr>) evs"
    then obtain ev as where e: "(name, ev) \<in> set evs" "ev_aliases ev = Some as"
      "snd (add_alias evs name alias)
              = AList.update name (ev\<lparr>ev_aliases := Some (as @ [alias])\<rparr>) evs" by blast
    have a: "aliases_of ev = as" using e(2) by (simp add: aliases_of_def)
    have other: "set as \<inter> set (aliases_of e2) = {}" "alias \<notin> set (aliases_of e2)"
      if "(k2, e2) \<in> set evs" "k2 \<noteq> name" for k2 e2
    proof -
      from aliases_disjointD [OF assms(2) e(1) that(1)] that(2) a
      show "set as \<inter> set (aliases_of e2) = {}" by auto
      from fresh that show "alias \<notin> set (aliases_of e2)" by auto
    qed
    have n: "aliases_of (ev\<lparr>ev_aliases := Some (as @ [alias])\<rparr>) = as @ [alias]"
      by (simp add: aliases_of_def)
    show ?thesis
      unfolding e(3)
      by (rule disjoint_update [OF d assms(2)]) (use other in \<open>auto simp: n\<close>)
  qed
qed

lemma reachable_fresh_inv:
  "reachable_fresh evs \<Longrightarrow> well_keyed evs \<and> aliases_disjoint evs"
proof (induction rule: reachable_fresh.induct)
  case f_start
  show ?case by (simp add: well_keyed_def own_name_aliased_def aliases_disjoint_def)
next
  case (f_event evs name)
  then show ?case by (simp add: well_keyed_add_event disjoint_add_event)
next
  case (f_alias evs name al)
  then show ?case by (simp add: well_keyed_add_alias disjoint_add_alias)
qed

text \<open>
  Claim C2, amended. \<^verbatim>\<open>add_alias\<close> looks only at the alias list of the event it is given,
  so the alias lists of two events can overlap. What holds: in every directory built from
  the empty one by calls of \<^verbatim>\<open>add_event\<close> and by calls of \<^verbatim>\<open>add_alias\<close> whose alias is
  not held by another event, the alias lists of events with distinct names are disjoint.
\<close>

theorem fresh_aliases_disjoint:
  "reachable_fresh evs \<Longrightarrow> aliases_disjoint evs"
  by (simp add: reachable_fresh_inv)

text \<open>A directory of two events built that way.\<close>

theorem fresh_aliases_disjoint_witness:
  "reachable_fresh two_event_dir \<and> aliases_disjoint two_event_dir"
proof -
  have 1: "reachable_fresh (snd (add_event [] ''SN1987A''))"
    by (rule f_event [OF f_start])
  have "\<forall>(k, ev) \<in> set (snd (add_event [] ''SN1987A'')).
          k \<noteq> ''SN1987A'' \<longrightarrow> ''1987A'' \<notin> set (aliases_of ev)"
    by (simp add: add_event_def add_alias_def new_event_def)
  with 1 have "reachable_fresh sn1987a_dir"
    unfolding sn1987a_dir_def by (rule f_alias)
  then have r: "reachable_fresh two_event_dir"
    unfolding two_event_dir_def by (rule f_event)
  with fresh_aliases_disjoint [OF r] show ?thesis by simp
qed

text \<open>
  Claim C2 as stated fails: two calls of \<^verbatim>\<open>add_event\<close> and two of \<^verbatim>\<open>add_alias\<close> give
  two events that both hold the alias \<^verbatim>\<open>PTF11kly\<close>.
\<close>

theorem shared_alias_counterexample:
  "reachable shared_alias_dir \<and> \<not> aliases_disjoint shared_alias_dir"
proof
  show "reachable shared_alias_dir"
    unfolding shared_alias_dir_def
    by (intro r_alias r_event r_start)
  show "\<not> aliases_disjoint shared_alias_dir"
    by (auto simp: shared_alias_dir_eq aliases_disjoint_def aliases_of_def)
qed

section \<open>Properties of \<^verbatim>\<open>add_quanta\<close>\<close>

lemma map_of_update_same: "map_of (AList.update k v al) k = Some v"
  by (simp add: update_conv')

lemma records_of_update:
  "records_of (AList.update name (ev\<lparr>ev_quanta := AList.update quanta cts qd\<rparr>) evs) name quanta = cts"
  by (simp add: records_of_def map_of_update_same)

lemma prepare_blank:
  "quanta \<noteq> [] \<Longrightarrow> blank_value value \<Longrightarrow> prepare env quanta value err = Inr Skip"
  by (simp add: prepare_def blank_value_def Let_def)

text \<open>
  Claim C10, amended. A call of \<^verbatim>\<open>add_quanta\<close> with a non-empty kind whose value is, after
  stripping, empty, \<^verbatim>\<open>--\<close> or \<^verbatim>\<open>-\<close> returns without an exception and leaves the
  directory as it was, whatever the other arguments are.
\<close>

theorem blank_value_ignored:
  "quanta \<noteq> [] \<Longrightarrow> blank_value value \<Longrightarrow>
   add_quanta env evs name quanta value source forcereplacebetter err = (None, evs)"
  by (simp add: add_quanta_def prepare_blank)

lemma strip_dashes: "strip '' -- '' = ''--''"
  by (simp add: strip_def strip_chars_def is_space_def)

text \<open>
  C10 at the value \<^verbatim>\<open>" -- "\<close> for the kind \<^verbatim>\<open>redshift\<close>.
\<close>

theorem blank_value_ignored_witness:
  "''redshift'' \<noteq> [] \<and> blank_value '' -- ''
   \<and> add_quanta plain_env redshift_dir ''SN2000A'' ''redshift'' '' -- '' ''2'' False ''0.1''
       = (None, redshift_dir)"
proof -
  have b: "blank_value '' -- ''" by (simp add: blank_value_def strip_dashes)
  have q: "''redshift'' \<noteq> []" by simp
  from blank_value_ignored [OF q b] b show ?thesis by simp
qed

text \<open>
  Claim C10 as stated, for every call, fails at the empty kind: line 248 raises
  \<^verbatim>\<open>ValueError\<close> before the value is looked at.
\<close>

theorem blank_value_empty_kind_counterexample:
  "blank_value '' -- ''
   \<and> add_quanta plain_env redshift_dir ''SN2000A'' [] '' -- '' ''2'' False []
       = (Some ValueError, redshift_dir)"
  by (simp add: blank_value_def strip_dashes add_quanta_def prepare_def)

text \<open>
  Claim C4, amended. A call of \<^verbatim>\<open>add_quanta\<close> with a non-empty kind, a value that is not
  blank, and a non-blank error that is no number or is negative raises \<^verbatim>\<open>ValueError\<close> to
  the caller (line 255); the directory is left as it was.
\<close>

theorem malformed_error_raises:
  "quanta \<noteq> [] \<Longrightarrow> \<not> blank_value value \<Longrightarrow> strip err \<noteq> [] \<Longrightarrow>
   \<not> is_number env (strip err) \<or> float_negative env (strip err) \<Longrightarrow>
   add_quanta env evs name quanta value source forcereplacebetter err = (Some ValueError, evs)"
  by (auto simp: add_quanta_def prepare_def blank_value_def Let_def)

lemma strip_abc: "strip ''abc'' = ''abc''"
  by (simp add: strip_def strip_chars_def is_space_def)

lemma strip_half: "strip ''0.5'' = ''0.5''"
  by (simp add: strip_def strip_chars_def is_space_def)

lemma abc_no_number: "\<not> is_number plain_env ''abc''"
  by (simp add: is_number_def plain_env_def plain_decimal_def strip_abc unsigned_part_def
        is_digit_def int_digits_def frac_digits_def)

text \<open>
  C4 at the error \<^verbatim>\<open>abc\<close>.
\<close>

theorem malformed_error_raises_witness:
  "''redshift'' \<noteq> [] \<and> \<not> blank_value ''0.5'' \<and> strip ''abc'' \<noteq> []
   \<and> \<not> is_number plain_env (strip ''abc'')
   \<and> add_quanta plain_env redshift_dir ''SN2000A'' ''redshift'' ''0.5'' ''2'' False ''abc''
       = (Some ValueError, redshift_dir)"
proof -
  have q: "''redshift'' \<noteq> []" by simp
  have b: "\<not> blank_value ''0.5''" by (simp add: blank_value_def strip_half)
  have e: "strip ''abc'' \<noteq> []" by (simp add: strip_abc)
  have n: "\<not> is_number plain_env (strip ''abc'') \<or> float_negative plain_env (strip ''abc'')"
    by (simp add: strip_abc abc_no_number)
  from malformed_error_raises [OF q b e n] b e abc_no_number show ?thesis
    by (simp add: strip_abc)
qed

text \<open>
  Claim C4 as stated (the candidate is dropped and no exception reaches the caller) fails:
  the error \<^verbatim>\<open>abc\<close> is no number and the call raises.
\<close>

theorem malformed_error_counterexample:
  "\<not> is_number plain_env ''abc''
   \<and> fst (add_quanta plain_env redshift_dir ''SN2000A'' ''redshift'' ''0.5'' ''2'' False ''abc'')
       = Some ValueError"
  by (simp add: abc_no_number add_quanta_def prepare_def strip_abc strip_half)

lemma same_value_none:
  "\<forall>ct \<in> set cts. q_value ct \<noteq> svalue \<Longrightarrow> same_value svalue serror source cts = None"
  by (induction cts) auto

lemma same_value_at:
  assumes "i < length cts" "q_value (cts ! i) = svalue" "\<forall>j<i. q_value (cts ! j) \<noteq> svalue"
  shows "same_value svalue serror source cts =
           Some (if source = [] then Inr cts
                 else case q_source (cts ! i) of
                        None \<Rightarrow> Inl KeyError
                      | Some s \<Rightarrow>
                          if source \<in> set (split_on CHR '','' s) then Inr cts
                          else Inr (cts[i := merged serror source s (cts ! i)]))"
  using assms
proof (induction cts arbitrary: i)
  case Nil
  then show ?case by simp
next
  case (Cons ct cts)
  show ?case
  proof (cases i)
    case 0
    with Cons.prems show ?thesis
      by (simp add: merged_def split: option.splits)
  next
    case (Suc k)
    with Cons.prems have k: "k < length cts" "q_value (cts ! k) = svalue"
      "\<forall>j<k. q_value (cts ! j) \<noteq> svalue" by auto
    from Cons.prems Suc have h: "q_value ct \<noteq> svalue" by auto
    from Cons.IH [OF k] h Suc show ?thesis
      by (simp split: option.splits)
  qed
qed

lemma update_same: "map_of al k = Some v \<Longrightarrow> AList.update k v al = al"
  by (rule update_triv)

lemma event_unchanged:
  assumes "map_of evs name = Some ev" "map_of (ev_quanta ev) quanta = Some cts"
  shows "AList.update name (ev\<lparr>ev_quanta := AList.update quanta cts (ev_quanta ev)\<rparr>) evs = evs"
  using assms by (simp add: update_triv)

text \<open>
  Claim C5, amended. Let \<open>cts\<close> be the records of the kind and \<open>svalue\<close>, \<open>serror\<close> the
  normalised value and error of a call that passes the checks. If record \<open>i\<close> is the first
  with the value \<open>svalue\<close>, the call appends no record and changes no other record: with an
  empty source, or a source already in the record's comma-separated source list, nothing
  changes at all; with a new source, the source is appended to the list of record \<open>i\<close>, and
  the record's error is overwritten by \<open>serror\<close> when the call gives an error (its value
  stays); a record stored without a source makes the call raise \<^verbatim>\<open>KeyError\<close>. This holds
  for every kind. If no record has the value, the kind is not prefer-better and
  \<^verbatim>\<open>forcereplacebetter\<close> is not set, the new record is appended.
\<close>

theorem same_value_merges_source:
  assumes p: "prepare env quanta value err = Inr (Candidate svalue serror)"
    and e: "map_of evs name = Some ev"
    and r: "records_of evs name quanta = cts"
  shows
    "(\<forall>i. i < length cts \<and> q_value (cts ! i) = svalue \<and> (\<forall>j<i. q_value (cts ! j) \<noteq> svalue) \<longrightarrow>
        add_quanta env evs name quanta value source forcereplacebetter err =
          (if source = [] then (None, evs)
           else case q_source (cts ! i) of
                  None \<Rightarrow> (Some KeyError, evs)
                | Some s \<Rightarrow>
                    if source \<in> set (split_on CHR '','' s) then (None, evs)
                    else (None,
                          AList.update name
                            (ev\<lparr>ev_quanta :=
                                  AList.update quanta
                                    (cts[i := (cts ! i)
                                       \<lparr>q_source := Some (s @ '','' @ source),
                                        q_error := (if serror \<noteq> [] then Some serror
                                                    else q_error (cts ! i))\<rparr>])
                                    (ev_quanta ev)\<rparr>)
                            evs)))
     \<and> ((\<forall>ct \<in> set cts. q_value ct \<noteq> svalue) \<and> \<not> forcereplacebetter
          \<and> quanta \<notin> set repbetterquanta \<longrightarrow>
        add_quanta env evs name quanta value source forcereplacebetter err =
          (None,
           AList.update name
             (ev\<lparr>ev_quanta :=
                   AList.update quanta
                     (cts @ [\<lparr>q_value = svalue,
                              q_error = (if serror \<noteq> [] then Some serror else None),
                              q_source = (if source \<noteq> [] then Some source else None)\<rparr>])
                     (ev_quanta ev)\<rparr>)
             evs))"
proof (cases "map_of (ev_quanta ev) quanta")
  case None
  with e r have "cts = []" by (simp add: records_of_def)
  with None p e show ?thesis
    by (simp add: add_quanta_def insert_quanta_def quantaentry_def)
next
  case (Some cts')
  with e r have c: "map_of (ev_quanta ev) quanta = Some cts" by (simp add: records_of_def)
  show ?thesis
  proof (intro conjI allI impI)
    fix i
    assume a: "i < length cts \<and> q_value (cts ! i) = svalue \<and> (\<forall>j<i. q_value (cts ! j) \<noteq> svalue)"
    then have "same_value svalue serror source cts =
             Some (if source = [] then Inr cts
                   else case q_source (cts ! i) of
                          None \<Rightarrow> Inl KeyError
                        | Some s \<Rightarrow>
                            if source \<in> set (split_on CHR '','' s) then Inr cts
                            else Inr (cts[i := merged serror source s (cts ! i)]))"
      by (intro same_value_at) auto
    then show "add_quanta env evs name quanta value source forcereplacebetter err =
            (if source = [] then (None, evs)
             else case q_source (cts ! i) of
                    None \<Rightarrow> (Some KeyError, evs)
                  | Some s \<Rightarrow>
                      if source \<in> set (split_on CHR '','' s) then (None, evs)
                      else (None,
                            AList.update name
                              (ev\<lparr>ev_quanta :=
                                    AList.update quanta
                                      (cts[i := (cts ! i)
                                         \<lparr>q_source := Some (s @ '','' @ source),
                                          q_error := (if serror \<noteq> [] then Some serror
                                                      else q_error (cts ! i))\<rparr>])
                                      (ev_quanta ev)\<rparr>)
                              evs))"
      using p e c event_unchanged [OF e c]
      by (simp add: add_quanta_def insert_quanta_def quantaentry_def merged_def split: option.splits)
  next
    assume a: "(\<forall>ct \<in> set cts. q_value ct \<noteq> svalue) \<and> \<not> forcereplacebetter
            \<and> quanta \<notin> set repbetterquanta"
    then have "same_value svalue serror source cts = None" by (simp add: same_value_none)
    with a p e c show "add_quanta env evs name quanta value source forcereplacebetter err =
            (None,
             AList.update name
               (ev\<lparr>ev_quanta :=
                     AList.update quanta
                       (cts @ [\<lparr>q_value = svalue,
                                q_error = (if serror \<noteq> [] then Some serror else None),
                                q_source = (if source \<noteq> [] then Some source else None)\<rparr>])
                       (ev_quanta ev)\<rparr>)
               evs)"
      by (simp add: add_quanta_def insert_quanta_def quantaentry_def)
  qed
qed

lemma strip_Ia: "strip ''Ia'' = ''Ia''"
  by (simp add: strip_def strip_chars_def is_space_def)

lemma Ia_no_number: "\<not> is_number plain_env ''Ia''"
  by (simp add: is_number_def plain_env_def plain_decimal_def strip_Ia unsigned_part_def
        is_digit_def int_digits_def frac_digits_def)

lemma claimed_Ia: "claimed_type typereps ''Ia'' = ''Ia''"
  by (simp add: typereps_def)

lemma strip_empty: "strip [] = []"
  by (simp add: strip_def strip_chars_def)

lemma prepare_Ia: "prepare plain_env ''claimedtype'' ''Ia'' [] = Inr (Candidate ''Ia'' [])"
  by (simp add: prepare_def strip_Ia Ia_no_number claimed_Ia strip_empty)

lemma type_dir_eq:
  "type_dir = [(''SN2000A'', (new_event ''SN2000A'')
      \<lparr>ev_aliases := Some [''SN2000A''],
       ev_quanta := [(''claimedtype'', [\<lparr>q_value = ''Ia'', q_error = None, q_source = Some ''1''\<rparr>])]\<rparr>)]"
  by (simp add: type_dir_def add_event_def add_alias_def new_event_def add_quanta_def prepare_Ia
        insert_quanta_def quantaentry_def)

lemma plain_half: "is_number plain_env ''0.5''" "\<not> float_negative plain_env ''0.5''"
  by (simp_all add: is_number_def plain_env_def plain_decimal_def plain_less_def scaled_value_def
        digits_value_def strip_half unsigned_part_def is_digit_def int_digits_def frac_digits_def
        strip_def strip_chars_def is_space_def)

lemma prepare_Ia_half:
  "prepare plain_env ''claimedtype'' ''Ia'' ''0.5'' = Inr (Candidate ''Ia'' ''0.5'')"
  by (simp add: prepare_def strip_Ia Ia_no_number claimed_Ia strip_half plain_half)
     (simp add: plain_env_def)

text \<open>
  C5 on an event with one claimed type: the same type from a second source, and a first
  host.
\<close>

theorem same_value_merges_source_witness:
  "prepare plain_env ''claimedtype'' ''Ia'' [] = Inr (Candidate ''Ia'' [])
   \<and> records_of type_dir ''SN2000A'' ''claimedtype''
       = [\<lparr>q_value = ''Ia'', q_error = None, q_source = Some ''1''\<rparr>]
   \<and> add_quanta plain_env type_dir ''SN2000A'' ''claimedtype'' ''Ia'' ''2'' False []
       = (None, [(''SN2000A'', (new_event ''SN2000A'')
           \<lparr>ev_aliases := Some [''SN2000A''],
            ev_quanta := [(''claimedtype'',
               [\<lparr>q_value = ''Ia'', q_error = None, q_source = Some ''1,2''\<rparr>])]\<rparr>)])
   \<and> prepare plain_env ''host'' ''Ia'' [] = Inr (Candidate ''Ia'' [])
   \<and> records_of type_dir ''SN2000A'' ''host'' = []
   \<and> add_quanta plain_env type_dir ''SN2000A'' ''host'' ''Ia'' ''2'' False []
       = (None, [(''SN2000A'', (new_event ''SN2000A'')
           \<lparr>ev_aliases := Some [''SN2000A''],
            ev_quanta := [(''claimedtype'',
               [\<lparr>q_value = ''Ia'', q_error = None, q_source = Some ''1''\<rparr>]),
              (''host'', [\<lparr>q_value = ''Ia'', q_error = None, q_source = Some ''2''\<rparr>])]\<rparr>)])"
proof -
  let ?cts = "[\<lparr>q_value = ''Ia'', q_error = None, q_source = Some ''1''\<rparr>]"
  let ?ev = "(new_event ''SN2000A'')
      \<lparr>ev_aliases := Some [''SN2000A''], ev_quanta := [(''claimedtype'', ?cts)]\<rparr>"
  have e: "map_of type_dir ''SN2000A'' = Some ?ev" by (simp add: type_dir_eq)
  have r: "records_of type_dir ''SN2000A'' ''claimedtype'' = ?cts"
    by (simp add: records_of_def type_dir_eq)
  have i: "0 < length ?cts \<and> q_value (?cts ! 0) = ''Ia'' \<and> (\<forall>j<0. q_value (?cts ! j) \<noteq> ''Ia'')"
    by simp
  from same_value_merges_source [OF prepare_Ia e r, of "''2''" False] i
  have 1: "add_quanta plain_env type_dir ''SN2000A'' ''claimedtype'' ''Ia'' ''2'' False []
       = (None, [(''SN2000A'', (new_event ''SN2000A'')
           \<lparr>ev_aliases := Some [''SN2000A''],
            ev_quanta := [(''claimedtype'',
               [\<lparr>q_value = ''Ia'', q_error = None, q_source = Some ''1,2''\<rparr>])]\<rparr>)])"
    by (simp add: type_dir_eq split_on_def new_event_def)
  have ph: "prepare plain_env ''host'' ''Ia'' [] = Inr (Candidate ''Ia'' [])"
    by (simp add: prepare_def strip_Ia strip_empty Ia_no_number host_name_def split_ws_def
          is_space_def)
  have rh: "records_of type_dir ''SN2000A'' ''host'' = []"
    by (simp add: records_of_def type_dir_eq)
  have h: "(\<forall>ct \<in> set []. q_value ct \<noteq> ''Ia'') \<and> \<not> False \<and> ''host'' \<notin> set repbetterquanta"
    by (simp add: repbetterquanta_def)
  from same_value_merges_source [OF ph e rh, of "''2''" False] h
  have 2: "add_quanta plain_env type_dir ''SN2000A'' ''host'' ''Ia'' ''2'' False []
       = (None, [(''SN2000A'', (new_event ''SN2000A'')
           \<lparr>ev_aliases := Some [''SN2000A''],
            ev_quanta := [(''claimedtype'',
               [\<lparr>q_value = ''Ia'', q_error = None, q_source = Some ''1''\<rparr>]),
              (''host'', [\<lparr>q_value = ''Ia'', q_error = None, q_source = Some ''2''\<rparr>])]\<rparr>)])"
    by (simp add: type_dir_eq new_event_def)
  from 1 2 prepare_Ia ph r rh show ?thesis by simp
qed

text \<open>
  Claim C5 as stated (the error of the matched record is unchanged) fails when the call
  brings a new source and an error: the record had no error and gets \<^verbatim>\<open>0.5\<close>.
\<close>

theorem same_value_error_counterexample:
  "''claimedtype'' \<notin> set repbetterquanta
   \<and> records_of type_dir ''SN2000A'' ''claimedtype''
       = [\<lparr>q_value = ''Ia'', q_error = None, q_source = Some ''1''\<rparr>]
   \<and> records_of
        (snd (add_quanta plain_env type_dir ''SN2000A'' ''claimedtype'' ''Ia'' ''2'' False ''0.5''))
        ''SN2000A'' ''claimedtype''
       = [\<lparr>q_value = ''Ia'', q_error = Some ''0.5'', q_source = Some ''1,2''\<rparr>]"
  by (simp add: repbetterquanta_def records_of_def type_dir_eq add_quanta_def prepare_Ia_half
        insert_quanta_def quantaentry_def split_on_def)

lemmas plain_simps = is_number_def plain_env_def plain_decimal_def plain_less_def
  scaled_value_def digits_value_def unsigned_part_def is_digit_def int_digits_def
  frac_digits_def strip_def strip_chars_def is_space_def

lemma prepare_z1:
  "prepare plain_env ''redshift'' ''0.045'' ''0.001'' = Inr (Candidate ''0.045'' ''0.001'')"
  by (simp add: prepare_def plain_simps)

lemma prepare_z2:
  "prepare plain_env ''redshift'' ''0.04'' [] = Inr (Candidate ''0.04'' [])"
  by (simp add: prepare_def plain_simps)

lemma prepare_z3:
  "prepare plain_env ''redshift'' ''0.045'' [] = Inr (Candidate ''0.045'' [])"
  by (simp add: prepare_def plain_simps)

lemma prepare_z4:
  "prepare plain_env ''redshift'' ''0.046'' [] = Inr (Candidate ''0.046'' [])"
  by (simp add: prepare_def plain_simps)

lemma sig_digits_examples:
  "get_sig_digits ''0.045'' = 2" "get_sig_digits ''0.046'' = 2" "get_sig_digits ''0.04'' = 1"
  "get_sig_digits ''0'' = 0"
  by (simp_all add: get_sig_digits_def split_on_def strip_chars_def)

lemma redshift_dir_eq:
  "redshift_dir = [(''SN2000A'', (new_event ''SN2000A'')
      \<lparr>ev_aliases := Some [''SN2000A''],
       ev_quanta := [(''redshift'',
          [\<lparr>q_value = ''0.045'', q_error = Some ''0.001'', q_source = Some ''1''\<rparr>])]\<rparr>)]"
  by (simp add: redshift_dir_def add_event_def add_alias_def new_event_def add_quanta_def
        prepare_z1 insert_quanta_def quantaentry_def)

lemma two_redshift_dir_eq:
  "two_redshift_dir = [(''SN2000A'', (new_event ''SN2000A'')
      \<lparr>ev_aliases := Some [''SN2000A''],
       ev_quanta := [(''redshift'',
          [\<lparr>q_value = ''0.045'', q_error = None, q_source = Some ''1''\<rparr>,
           \<lparr>q_value = ''0.046'', q_error = None, q_source = Some ''1''\<rparr>])]\<rparr>)]"
  by (simp add: two_redshift_dir_def add_event_def add_alias_def new_event_def add_quanta_def
        prepare_z3 prepare_z4 insert_quanta_def quantaentry_def repbetterquanta_def sig_digits_examples)

lemma better_loop_errored:
  assumes "serror \<noteq> []" "is_float env serror"
    and "\<forall>ct \<in> set cts. \<forall>e. q_error ct = Some e \<longrightarrow> is_float env e"
  shows "better_loop env serror n cts acc w =
           Inr (acc @ filter (keeps_errored env serror) cts,
                w \<and> (\<forall>ct \<in> set cts. keeps_errored env serror ct))"
  using assms
  by (induction cts arbitrary: acc w) (auto simp: keeps_errored_def split: option.splits)

lemma better_loop_errorless:
  "better_loop env [] n cts acc w =
     Inr (acc @ filter (\<lambda>ct. q_error ct \<noteq> None \<or> n \<le> get_sig_digits (q_value ct)) cts,
          w \<and> (\<forall>ct \<in> set cts. q_error ct = None \<longrightarrow> n < get_sig_digits (q_value ct)))"
  by (induction cts arbitrary: acc w) (auto simp: Let_def split: option.splits)

lemma add_quanta_better:
  assumes p: "prepare env quanta value err = Inr (Candidate svalue serror)"
    and e: "map_of evs name = Some ev"
    and c: "map_of (ev_quanta ev) quanta = Some cts"
    and k: "quanta \<in> set repbetterquanta"
    and v: "\<forall>ct \<in> set cts. q_value ct \<noteq> svalue"
    and b: "better_loop env serror (get_sig_digits svalue) cts [] True = Inr (newquantas, isworse)"
  shows "add_quanta env evs name quanta value source forcereplacebetter err =
           (None, AList.update name
                    (ev\<lparr>ev_quanta := AList.update quanta
                        (if isworse then newquantas
                         else newquantas @ [quantaentry svalue serror source])
                        (ev_quanta ev)\<rparr>) evs)"
  using assms
  by (simp add: add_quanta_def insert_quanta_def same_value_none)

text \<open>
  Claim C3, amended. For a prefer-better kind and a candidate whose normalised value no
  record of the kind has: a candidate with an error (all errors being numbers) removes every
  record without an error and, when there was one, is inserted; a candidate without an
  error removes no record that has an error, and is not inserted when every record has
  one. In the example, redshift \<^verbatim>\<open>0.045\<close> with error \<^verbatim>\<open>0.001\<close> from source \<^verbatim>\<open>1\<close>
  is ingested, then redshift \<^verbatim>\<open>0.04\<close> without error from source \<^verbatim>\<open>2\<close>: the second
  call changes nothing, and the one record left has value \<^verbatim>\<open>0.045\<close>, error \<^verbatim>\<open>0.001\<close>
  and source \<^verbatim>\<open>1\<close>.
\<close>

theorem error_dominates:
  assumes p: "prepare env quanta value err = Inr (Candidate svalue serror)"
    and e: "map_of evs name = Some ev"
    and c: "map_of (ev_quanta ev) quanta = Some cts"
    and k: "quanta \<in> set repbetterquanta"
    and v: "\<forall>ct \<in> set cts. q_value ct \<noteq> svalue"
  shows
    "(serror \<noteq> [] \<and> is_float env serror
        \<and> (\<forall>ct \<in> set cts. \<forall>e. q_error ct = Some e \<longrightarrow> is_float env e) \<longrightarrow>
      (\<exists>evs'. add_quanta env evs name quanta value source forcereplacebetter err = (None, evs')
         \<and> (\<forall>ct \<in> set cts. q_error ct = None \<longrightarrow> ct \<notin> set (records_of evs' name quanta))
         \<and> ((\<exists>ct \<in> set cts. q_error ct = None) \<longrightarrow>
               quantaentry svalue serror source \<in> set (records_of evs' name quanta))))
     \<and> (serror = [] \<longrightarrow>
      (\<exists>evs'. add_quanta env evs name quanta value source forcereplacebetter err = (None, evs')
         \<and> (\<forall>ct \<in> set cts. q_error ct \<noteq> None \<longrightarrow> ct \<in> set (records_of evs' name quanta))
         \<and> ((\<forall>ct \<in> set cts. q_error ct \<noteq> None) \<longrightarrow> records_of evs' name quanta = cts)))
     \<and> records_of redshift_dir ''SN2000A'' ''redshift''
         = [\<lparr>q_value = ''0.045'', q_error = Some ''0.001'', q_source = Some ''1''\<rparr>]
     \<and> add_quanta plain_env redshift_dir ''SN2000A'' ''redshift'' ''0.04'' ''2'' False []
         = (None, redshift_dir)"
proof (intro conjI impI)
  assume a: "serror \<noteq> [] \<and> is_float env serror
        \<and> (\<forall>ct \<in> set cts. \<forall>e. q_error ct = Some e \<longrightarrow> is_float env e)"
  define new where "new = filter (keeps_errored env serror) cts"
  define w where "w \<longleftrightarrow> (\<forall>ct \<in> set cts. keeps_errored env serror ct)"
  define res where "res = (if w then new else new @ [quantaentry svalue serror source])"
  define evs' where
    "evs' = AList.update name (ev\<lparr>ev_quanta := AList.update quanta res (ev_quanta ev)\<rparr>) evs"
  from a have b: "better_loop env serror (get_sig_digits svalue) cts [] True = Inr (new, w)"
    by (simp add: better_loop_errored new_def w_def)
  have r: "add_quanta env evs name quanta value source forcereplacebetter err = (None, evs')"
    unfolding evs'_def res_def by (rule add_quanta_better [OF p e c k v b])
  have rec: "records_of evs' name quanta = res"
    unfolding evs'_def by (rule records_of_update)
  have cand: "q_error (quantaentry svalue serror source) = Some serror"
    using a by (simp add: quantaentry_def)
  have ke: "\<And>ct. q_error ct = None \<Longrightarrow> \<not> keeps_errored env serror ct"
    by (simp add: keeps_errored_def)
  have 1: "\<forall>ct \<in> set cts. q_error ct = None \<longrightarrow> ct \<notin> set res"
  proof (intro ballI impI)
    fix ct
    assume "ct \<in> set cts" and n: "q_error ct = None"
    from n have "\<not> keeps_errored env serror ct" by (rule ke)
    moreover from n cand have "ct \<noteq> quantaentry svalue serror source" by auto
    ultimately show "ct \<notin> set res" by (auto simp: res_def new_def)
  qed
  have 2: "(\<exists>ct \<in> set cts. q_error ct = None) \<longrightarrow> quantaentry svalue serror source \<in> set res"
  proof
    assume "\<exists>ct \<in> set cts. q_error ct = None"
    then obtain ct where "ct \<in> set cts" "\<not> keeps_errored env serror ct" using ke by blast
    then have "\<not> w" unfolding w_def by blast
    then show "quantaentry svalue serror source \<in> set res" by (simp add: res_def)
  qed
  from r 1 2
  show "\<exists>evs'. add_quanta env evs name quanta value source forcereplacebetter err = (None, evs')
         \<and> (\<forall>ct \<in> set cts. q_error ct = None \<longrightarrow> ct \<notin> set (records_of evs' name quanta))
         \<and> ((\<exists>ct \<in> set cts. q_error ct = None) \<longrightarrow>
               quantaentry svalue serror source \<in> set (records_of evs' name quanta))"
    unfolding rec [symmetric] by blast
next
  assume a: "serror = []"
  define n where "n = get_sig_digits svalue"
  define new where
    "new = filter (\<lambda>ct. q_error ct \<noteq> None \<or> n \<le> get_sig_digits (q_value ct)) cts"
  define w where "w \<longleftrightarrow> (\<forall>ct \<in> set cts. q_error ct = None \<longrightarrow> n < get_sig_digits (q_value ct))"
  define res where "res = (if w then new else new @ [quantaentry svalue serror source])"
  define evs' where
    "evs' = AList.update name (ev\<lparr>ev_quanta := AList.update quanta res (ev_quanta ev)\<rparr>) evs"
  from a have b: "better_loop env serror (get_sig_digits svalue) cts [] True = Inr (new, w)"
    by (simp add: better_loop_errorless new_def w_def n_def)
  have r: "add_quanta env evs name quanta value source forcereplacebetter err = (None, evs')"
    unfolding evs'_def res_def by (rule add_quanta_better [OF p e c k v b])
  have rec: "records_of evs' name quanta = res"
    unfolding evs'_def by (rule records_of_update)
  have 1: "\<forall>ct \<in> set cts. q_error ct \<noteq> None \<longrightarrow> ct \<in> set res"
    by (auto simp: res_def new_def)
  have 2: "(\<forall>ct \<in> set cts. q_error ct \<noteq> None) \<longrightarrow> res = cts"
  proof
    assume h: "\<forall>ct \<in> set cts. q_error ct \<noteq> None"
    then have "w" unfolding w_def by blast
    moreover from h have "new = cts" unfolding new_def by (simp add: filter_id_conv)
    ultimately show "res = cts" by (simp add: res_def)
  qed
  from r 1 2
  show "\<exists>evs'. add_quanta env evs name quanta value source forcereplacebetter err = (None, evs')
         \<and> (\<forall>ct \<in> set cts. q_error ct \<noteq> None \<longrightarrow> ct \<in> set (records_of evs' name quanta))
         \<and> ((\<forall>ct \<in> set cts. q_error ct \<noteq> None) \<longrightarrow> records_of evs' name quanta = cts)"
    unfolding rec [symmetric] by blast
next
  show "records_of redshift_dir ''SN2000A'' ''redshift''
         = [\<lparr>q_value = ''0.045'', q_error = Some ''0.001'', q_source = Some ''1''\<rparr>]"
    by (simp add: records_of_def redshift_dir_eq)
next
  show "add_quanta plain_env redshift_dir ''SN2000A'' ''redshift'' ''0.04'' ''2'' False []
         = (None, redshift_dir)"
    by (simp add: redshift_dir_eq add_quanta_def prepare_z2 insert_quanta_def quantaentry_def repbetterquanta_def
          sig_digits_examples)
qed

lemma errorless_dir_eq:
  "errorless_dir = [(''SN2000A'', (new_event ''SN2000A'')
      \<lparr>ev_aliases := Some [''SN2000A''],
       ev_quanta := [(''redshift'',
          [\<lparr>q_value = ''0.045'', q_error = None, q_source = Some ''1''\<rparr>])]\<rparr>)]"
  by (simp add: errorless_dir_def add_event_def add_alias_def new_event_def add_quanta_def
        prepare_z3 insert_quanta_def quantaentry_def)

lemma prepare_z5:
  "prepare plain_env ''redshift'' ''0.04'' ''0.001'' = Inr (Candidate ''0.04'' ''0.001'')"
  by (simp add: prepare_def plain_simps)

lemma float_milli: "is_float plain_env ''0.001''"
  by (simp add: plain_simps)

text \<open>
  C3 on one record without error and a candidate with one, and on the example.
\<close>

theorem error_dominates_witness:
  "prepare plain_env ''redshift'' ''0.04'' ''0.001'' = Inr (Candidate ''0.04'' ''0.001'')
   \<and> ''redshift'' \<in> set repbetterquanta
   \<and> records_of errorless_dir ''SN2000A'' ''redshift''
       = [\<lparr>q_value = ''0.045'', q_error = None, q_source = Some ''1''\<rparr>]
   \<and> \<lparr>q_value = ''0.045'', q_error = None, q_source = Some ''1''\<rparr>
       \<notin> set (records_of (snd (add_quanta plain_env errorless_dir ''SN2000A'' ''redshift''
                                  ''0.04'' ''2'' False ''0.001'')) ''SN2000A'' ''redshift'')
   \<and> \<lparr>q_value = ''0.04'', q_error = Some ''0.001'', q_source = Some ''2''\<rparr>
       \<in> set (records_of (snd (add_quanta plain_env errorless_dir ''SN2000A'' ''redshift''
                                  ''0.04'' ''2'' False ''0.001'')) ''SN2000A'' ''redshift'')
   \<and> prepare plain_env ''redshift'' ''0.04'' [] = Inr (Candidate ''0.04'' [])
   \<and> records_of (snd (add_quanta plain_env redshift_dir ''SN2000A'' ''redshift''
                          ''0.04'' ''2'' False [])) ''SN2000A'' ''redshift''
       = [\<lparr>q_value = ''0.045'', q_error = Some ''0.001'', q_source = Some ''1''\<rparr>]"
proof -
  let ?r0 = "\<lparr>q_value = ''0.045'', q_error = None, q_source = Some ''1''\<rparr>"
  let ?r1 = "\<lparr>q_value = ''0.045'', q_error = Some ''0.001'', q_source = Some ''1''\<rparr>"
  let ?ev0 = "(new_event ''SN2000A'')
      \<lparr>ev_aliases := Some [''SN2000A''], ev_quanta := [(''redshift'', [?r0])]\<rparr>"
  let ?ev1 = "(new_event ''SN2000A'')
      \<lparr>ev_aliases := Some [''SN2000A''], ev_quanta := [(''redshift'', [?r1])]\<rparr>"
  have k: "''redshift'' \<in> set repbetterquanta" by (simp add: repbetterquanta_def)
  have e0: "map_of errorless_dir ''SN2000A'' = Some ?ev0" by (simp add: errorless_dir_eq)
  have c0: "map_of (ev_quanta ?ev0) ''redshift'' = Some [?r0]" by simp
  have v0: "\<forall>ct \<in> set [?r0]. q_value ct \<noteq> ''0.04''" by simp
  have h0: "''0.001'' \<noteq> [] \<and> is_float plain_env ''0.001''
        \<and> (\<forall>ct \<in> set [?r0]. \<forall>e. q_error ct = Some e \<longrightarrow> is_float plain_env e)"
    by (simp add: float_milli)
  from error_dominates [OF prepare_z5 e0 c0 k v0, of "''2''" False] h0
  obtain evs' where
    a: "add_quanta plain_env errorless_dir ''SN2000A'' ''redshift'' ''0.04'' ''2'' False ''0.001''
          = (None, evs')"
    and b: "\<forall>ct \<in> set [?r0]. q_error ct = None \<longrightarrow> ct \<notin> set (records_of evs' ''SN2000A'' ''redshift'')"
    and c: "(\<exists>ct \<in> set [?r0]. q_error ct = None) \<longrightarrow>
            quantaentry ''0.04'' ''0.001'' ''2'' \<in> set (records_of evs' ''SN2000A'' ''redshift'')"
    by blast
  from a have s0: "snd (add_quanta plain_env errorless_dir ''SN2000A'' ''redshift'' ''0.04'' ''2''
                          False ''0.001'') = evs'" by simp
  have 1: "?r0 \<notin> set (records_of evs' ''SN2000A'' ''redshift'')" using b by simp
  have 2: "\<lparr>q_value = ''0.04'', q_error = Some ''0.001'', q_source = Some ''2''\<rparr>
             \<in> set (records_of evs' ''SN2000A'' ''redshift'')"
    using c by (simp add: quantaentry_def)
  have e1: "map_of redshift_dir ''SN2000A'' = Some ?ev1" by (simp add: redshift_dir_eq)
  have c1: "map_of (ev_quanta ?ev1) ''redshift'' = Some [?r1]" by simp
  have v1: "\<forall>ct \<in> set [?r1]. q_value ct \<noteq> ''0.04''" by simp
  from error_dominates [OF prepare_z2 e1 c1 k v1, of "''2''" False]
  obtain evs'' where
    a': "add_quanta plain_env redshift_dir ''SN2000A'' ''redshift'' ''0.04'' ''2'' False []
          = (None, evs'')"
    and c': "(\<forall>ct \<in> set [?r1]. q_error ct \<noteq> None) \<longrightarrow>
               records_of evs'' ''SN2000A'' ''redshift'' = [?r1]"
    by blast
  from a' have s1: "snd (add_quanta plain_env redshift_dir ''SN2000A'' ''redshift'' ''0.04'' ''2''
                          False []) = evs''" by simp
  have 3: "records_of evs'' ''SN2000A'' ''redshift'' = [?r1]" using c' by simp
  have 4: "records_of errorless_dir ''SN2000A'' ''redshift'' = [?r0]"
    by (simp add: records_of_def errorless_dir_eq)
  show ?thesis
    unfolding s0 s1 using prepare_z5 prepare_z2 k 1 2 3 4 by blast
qed

text \<open>
  Claim C3 as stated fails when the candidate has the value of an existing record: the
  first loop, which runs for every kind, merges the candidate into that record and
  returns, so the other record without error stays although the candidate has an error.
\<close>

theorem error_dominates_counterexample:
  "prepare plain_env ''redshift'' ''0.045'' ''0.001'' = Inr (Candidate ''0.045'' ''0.001'')
   \<and> records_of two_redshift_dir ''SN2000A'' ''redshift''
       = [\<lparr>q_value = ''0.045'', q_error = None, q_source = Some ''1''\<rparr>,
          \<lparr>q_value = ''0.046'', q_error = None, q_source = Some ''1''\<rparr>]
   \<and> add_quanta plain_env two_redshift_dir ''SN2000A'' ''redshift'' ''0.045'' ''2'' False ''0.001''
       = (None, [(''SN2000A'', (new_event ''SN2000A'')
           \<lparr>ev_aliases := Some [''SN2000A''],
            ev_quanta := [(''redshift'',
              [\<lparr>q_value = ''0.045'', q_error = Some ''0.001'', q_source = Some ''1,2''\<rparr>,
               \<lparr>q_value = ''0.046'', q_error = None, q_source = Some ''1''\<rparr>])]\<rparr>)])"
  by (simp add: prepare_z1 records_of_def two_redshift_dir_eq add_quanta_def insert_quanta_def quantaentry_def
        split_on_def new_event_def)

section \<open>Properties of \<^verbatim>\<open>get_source\<close>\<close>

lemma str_nat_nonempty: "str_nat n \<noteq> []"
  by (subst str_nat.simps) simp

lemma char_of_digit_inj:
  "a < 10 \<Longrightarrow> b < 10 \<Longrightarrow> (char_of (48 + a) :: char) = char_of (48 + b) \<Longrightarrow> a = (b::nat)"
proof -
  assume a: "a < 10" and b: "b < 10" and e: "(char_of (48 + a) :: char) = char_of (48 + b)"
  from e have "of_char (char_of (48 + a) :: char) = (of_char (char_of (48 + b) :: char) :: nat)"
    by simp
  then have "(48 + a) mod 256 = (48 + b) mod 256" by (simp only: of_char_of)
  with a b show "a = b" by simp
qed

lemma str_nat_inj: "str_nat m = str_nat n \<Longrightarrow> m = n"
proof (induction m arbitrary: n rule: str_nat.induct)
  case (1 m)
  show ?case
  proof (cases "m < 10")
    case True
    show ?thesis
    proof (cases "n < 10")
      case n: True
      from "1.prems" True n have "(char_of (48 + m) :: char) = char_of (48 + n)"
        by (simp add: str_nat.simps [of m] str_nat.simps [of n])
      with True n show ?thesis by (rule char_of_digit_inj [OF _ _])
    next
      case False
      with "1.prems" True str_nat_nonempty [of "n div 10"] show ?thesis
        by (simp add: str_nat.simps [of m] str_nat.simps [of n])
    qed
  next
    case False
    show ?thesis
    proof (cases "n < 10")
      case True
      with "1.prems" False str_nat_nonempty [of "m div 10"] show ?thesis
        by (simp add: str_nat.simps [of m] str_nat.simps [of n])
    next
      case n: False
      from "1.prems" False n
      have e: "str_nat (m div 10) = str_nat (n div 10)"
        and c: "(char_of (48 + m mod 10) :: char) = char_of (48 + n mod 10)"
        by (simp_all add: str_nat.simps [of m] str_nat.simps [of n])
      from "1.IH" [OF False e] have d: "m div 10 = n div 10" .
      have "m mod 10 = n mod 10"
        by (rule char_of_digit_inj [OF _ _ c]) simp_all
      with d show ?thesis by (metis div_mult_mod_eq)
    qed
  qed
qed

lemma distinct_str_nat: "distinct (map str_nat [1..<Suc n])"
  by (simp add: distinct_map inj_on_def str_nat_inj del: upt_Suc)

lemma find_distinct:
  "distinct (map f xs) \<Longrightarrow> x \<in> set xs \<Longrightarrow> find (\<lambda>y. f y = f x) xs = Some x"
  by (induction xs) (auto simp: rev_image_eqI)

lemma find_absent: "k \<notin> set (map f xs) \<Longrightarrow> find (\<lambda>y. f y = k) xs = None"
  by (induction xs) auto

lemma find_present: "k \<in> set (map f xs) \<Longrightarrow> \<exists>x. find (\<lambda>y. f y = k) xs = Some x"
  by (induction xs) auto

lemma get_source_known:
  assumes "map_of evs name = Some ev" "s \<in> set (sources_of evs name)"
    and "distinct (map s_name (sources_of evs name))" "s_name s \<noteq> []"
    and "(if reference = [] then bibcode else reference) = s_name s"
  shows "get_source evs name reference url bibcode secondary = (Inr (s_alias s), evs)"
proof -
  from assms(1,2) obtain ss where ss: "ev_sources ev = Some ss" "sources_of evs name = ss"
    by (cases "ev_sources ev") (auto simp: sources_of_def)
  from assms(2,3) ss have f: "find (\<lambda>y. s_name y = s_name s) ss = Some s"
    by (simp add: find_distinct)
  from assms(4,5) have n: "\<not> (reference = [] \<and> bibcode = [])" by auto
  show ?thesis
    using assms(1) ss(1) f n assms(5)
    by (simp add: get_source_def Let_def)
qed

lemma get_source_sources:
  assumes "map_of evs name = Some ev"
  shows "sources_of (snd (get_source evs name reference url bibcode secondary)) name =
           (let ss = sources_of evs name in
            if reference = [] \<and> bibcode = [] then ss
            else if (if reference = [] then bibcode else reference) \<in> set (map s_name ss) then ss
            else ss @ [newsource (length ss) reference url bibcode secondary])"
proof (cases "reference = [] \<and> bibcode = []")
  case True
  with assms show ?thesis by (simp add: get_source_def Let_def)
next
  case False
  define ss where "ss = sources_of evs name"
  define k where "k = (if reference = [] then bibcode else reference)"
  have ss: "(case ev_sources ev of None \<Rightarrow> [] | Some ss \<Rightarrow> ss) = ss"
    "(case ev_sources ev of None \<Rightarrow> 0 | Some ss \<Rightarrow> length ss) = length ss"
    using assms by (auto simp: ss_def sources_of_def split: option.splits)
  show ?thesis
  proof (cases "k \<in> set (map s_name ss)")
    case True
    then obtain ss' where s': "ev_sources ev = Some ss'" "ss' = ss"
      using assms by (cases "ev_sources ev") (auto simp: ss_def sources_of_def)
    from True obtain x where "find (\<lambda>y. s_name y = k) ss = Some x"
      using find_present by fastforce
    with assms False True s' show ?thesis
      unfolding get_source_def Let_def k_def [symmetric] ss_def [symmetric]
      by (simp add: k_def [symmetric] ss_def [symmetric])
  next
    case n: False
    then have "(case ev_sources ev of None \<Rightarrow> None | Some ss \<Rightarrow> find (\<lambda>s. s_name s = k) ss) = None"
      using assms by (auto simp: ss_def sources_of_def find_absent split: option.splits)
    with assms False n ss show ?thesis
      unfolding get_source_def Let_def k_def [symmetric]
      by (auto simp: sources_of_def update_conv' newsource_def k_def ss_def [symmetric])
  qed
qed

lemma get_source_keeps_event:
  "map_of evs name = Some ev \<Longrightarrow>
   \<exists>ev'. map_of (snd (get_source evs name reference url bibcode secondary)) name = Some ev'"
  by (auto simp: get_source_def Let_def update_conv' split: option.splits)

lemma get_source_no_event:
  "map_of evs name = None \<Longrightarrow> get_source evs name reference url bibcode secondary = (Inl KeyError, evs)"
  by (simp add: get_source_def)

lemma citations_ok_snoc:
  assumes "citations_ok ss" "k \<noteq> []" "k \<notin> set (map s_name ss)"
    "s_name x = k" "s_alias x = str_nat (length ss + 1)"
  shows "citations_ok (ss @ [x])"
  using assms by (simp add: citations_ok_def)

lemma citations_ok_step:
  assumes "citations_ok (sources_of evs name)"
  shows "citations_ok (sources_of (snd (get_source evs name reference url bibcode secondary)) name)"
proof (cases "map_of evs name")
  case None
  with assms show ?thesis by (simp add: get_source_no_event)
next
  case (Some ev)
  define ss where "ss = sources_of evs name"
  define k where "k = (if reference = [] then bibcode else reference)"
  show ?thesis
  proof (cases "(reference = [] \<and> bibcode = []) \<or> k \<in> set (map s_name ss)")
    case True
    with assms show ?thesis
      unfolding get_source_sources [OF Some] Let_def ss_def k_def by auto
  next
    case False
    then have n: "k \<noteq> []" "k \<notin> set (map s_name ss)" by (auto simp: k_def)
    have "citations_ok (ss @ [newsource (length ss) reference url bibcode secondary])"
      by (rule citations_ok_snoc [OF _ n]) (use assms in \<open>simp_all add: ss_def newsource_def k_def\<close>)
    with False show ?thesis
      unfolding get_source_sources [OF Some] Let_def ss_def k_def by auto
  qed
qed

lemma citations_ok_run:
  "citations_ok (sources_of evs name) \<Longrightarrow> citations_ok (sources_of (get_sources evs name calls) name)"
  by (induction evs name calls rule: get_sources.induct) (simp_all add: citations_ok_step)

text \<open>
  Claim C6. For an event without citations, after any sequence of calls of
  \<^verbatim>\<open>get_source\<close>: no two citations have the same pair of reference name and bibcode
  (indeed, the same name); the aliases of the citations are \<^verbatim>\<open>'1'\<close>, \<^verbatim>\<open>'2'\<close>, ... in
  the order of insertion, hence distinct; and a call whose reference name (the bibcode,
  when no reference is given) is that of a citation returns the alias of this citation and
  appends nothing.
\<close>

theorem citations_not_duplicated:
  assumes "sources_of evs name = []"
  shows "distinct (map (\<lambda>s. (s_name s, s_bibcode s)) (sources_of (get_sources evs name calls) name))
     \<and> map s_alias (sources_of (get_sources evs name calls) name)
         = map str_nat [1..<Suc (length (sources_of (get_sources evs name calls) name))]
     \<and> distinct (map s_alias (sources_of (get_sources evs name calls) name))
     \<and> (\<forall>s \<in> set (sources_of (get_sources evs name calls) name).
          \<forall>reference url bibcode secondary.
            (if reference = [] then bibcode else reference) = s_name s \<longrightarrow>
            get_source (get_sources evs name calls) name reference url bibcode secondary
              = (Inr (s_alias s), get_sources evs name calls))"
proof -
  define evs' where "evs' = get_sources evs name calls"
  define ss where "ss = sources_of evs' name"
  from assms have "citations_ok (sources_of evs name)" by (simp add: citations_ok_def)
  then have ok: "citations_ok ss" unfolding ss_def evs'_def by (rule citations_ok_run)
  then have d: "distinct (map s_name ss)" and ne: "[] \<notin> set (map s_name ss)"
    and al: "map s_alias ss = map str_nat [1..<Suc (length ss)]"
    by (simp_all add: citations_ok_def)
  have 1: "distinct (map (\<lambda>s. (s_name s, s_bibcode s)) ss)"
  proof -
    have "map s_name ss = map fst (map (\<lambda>s. (s_name s, s_bibcode s)) ss)" by (simp add: comp_def)
    with d show ?thesis by (metis distinct_map)
  qed
  have 3: "distinct (map s_alias ss)" unfolding al by (rule distinct_str_nat)
  have 4: "\<forall>s \<in> set ss. \<forall>reference url bibcode secondary.
            (if reference = [] then bibcode else reference) = s_name s \<longrightarrow>
            get_source evs' name reference url bibcode secondary = (Inr (s_alias s), evs')"
  proof (intro ballI allI impI)
    fix s reference url bibcode secondary
    assume m: "s \<in> set ss" and k: "(if reference = [] then bibcode else reference) = s_name s"
    from m obtain ev where e: "map_of evs' name = Some ev"
      by (cases "map_of evs' name") (auto simp: ss_def sources_of_def)
    from m ne have "s_name s \<noteq> []" by force
    with e m d k show "get_source evs' name reference url bibcode secondary = (Inr (s_alias s), evs')"
      unfolding ss_def by (intro get_source_known) auto
  qed
  from 1 al 3 4 show ?thesis unfolding ss_def evs'_def by simp
qed

lemma cited_dir_eq:
  "cited_dir = [(''SN2000A'', (new_event ''SN2000A'')
      \<lparr>ev_aliases := Some [''SN2000A''],
       ev_sources := Some
         [\<lparr>s_name = ''2014MNRAS.442..844F'',
           s_url = Some ''http://adsabs.harvard.edu/abs/2014MNRAS.442..844F'',
           s_bibcode = Some ''2014MNRAS.442..844F'', s_alias = ''1'', s_secondary = False\<rparr>,
          \<lparr>s_name = ''SUSPECT'', s_url = Some ''https://www.nhn.ou.edu/~suspect/'',
           s_bibcode = None, s_alias = ''2'', s_secondary = True\<rparr>]\<rparr>)]"
  by code_simp

text \<open>
  C6 on a new event after three calls, two of them for the same paper.
\<close>

theorem citations_not_duplicated_witness:
  "sources_of (snd (add_event [] ''SN2000A'')) ''SN2000A'' = []
   \<and> map s_alias (sources_of cited_dir ''SN2000A'') = [''1'', ''2'']
   \<and> map s_name (sources_of cited_dir ''SN2000A'') = [''2014MNRAS.442..844F'', ''SUSPECT'']
   \<and> get_source cited_dir ''SN2000A'' [] [] ''2014MNRAS.442..844F'' False = (Inr ''1'', cited_dir)
   \<and> get_source cited_dir ''SN2000A'' ''SUSPECT'' [] [] True = (Inr ''2'', cited_dir)"
proof -
  have h: "sources_of (snd (add_event [] ''SN2000A'')) ''SN2000A'' = []"
    by (simp add: sources_of_def add_event_def add_alias_def new_event_def)
  have ss: "sources_of cited_dir ''SN2000A'' =
         [\<lparr>s_name = ''2014MNRAS.442..844F'',
           s_url = Some ''http://adsabs.harvard.edu/abs/2014MNRAS.442..844F'',
           s_bibcode = Some ''2014MNRAS.442..844F'', s_alias = ''1'', s_secondary = False\<rparr>,
          \<lparr>s_name = ''SUSPECT'', s_url = Some ''https://www.nhn.ou.edu/~suspect/'',
           s_bibcode = None, s_alias = ''2'', s_secondary = True\<rparr>]"
    by (simp add: sources_of_def cited_dir_eq)
  note t = citations_not_duplicated [OF h, of
      "[([], [], ''2014MNRAS.442..844F'', False),
        (''SUSPECT'', ''https://www.nhn.ou.edu/~suspect/'', [], True),
        (''2014MNRAS.442..844F'', [], [], False)]", folded cited_dir_def, unfolded ss]
  from t have 1: "get_source cited_dir ''SN2000A'' [] [] ''2014MNRAS.442..844F'' False
                    = (Inr ''1'', cited_dir)"
    by simp
  from t have 2: "get_source cited_dir ''SN2000A'' ''SUSPECT'' [] [] True = (Inr ''2'', cited_dir)"
    by simp
  from h ss 1 2 show ?thesis by simp
qed

section \<open>Properties of the final pass\<close>





















section \<open>Properties of first light\<close>

text \<open>
  Claim C9 fails on the code. For the two photometry points above, \<^verbatim>\<open>get_first_light\<close>
  returns the date of the point at MJD 10000.5, the later one: \<^verbatim>\<open>min\<close> compares the time
  strings, and \<^verbatim>\<open>'10000.5' < '9999.5'\<close> as strings. \<^verbatim>\<open>set_first_max_light\<close> then writes that
  date as the discovery date. This holds whatever the date conversion returns. Without
  photometry both functions return nothing and \<^verbatim>\<open>set_first_max_light\<close> changes nothing.
\<close>

theorem first_light_compares_strings:
  "str_less ''10000.5'' ''9999.5''
   \<and> get_first_light cal (ev\<lparr>ev_photometry := Some two_points\<rparr>)
       = (case mjd_date cal ''10000.5'' of Inl e \<Rightarrow> Inl e | Inr dt \<Rightarrow> Inr (Some dt))
   \<and> get_first_light cal (ev\<lparr>ev_photometry := None\<rparr>) = Inr None
   \<and> get_max_light cal (ev\<lparr>ev_photometry := None\<rparr>) = Inr None
   \<and> set_first_max_light cal [(name, ev\<lparr>ev_photometry := None\<rparr>)] name
       = (None, [(name, ev\<lparr>ev_photometry := None\<rparr>)])"
  by (simp add: get_first_light_def get_max_light_def set_first_max_light_def two_points_def)

section \<open>Properties of \<^verbatim>\<open>copy_entry_to_entry\<close>\<close>

lemma newsourcealiases_keys:
  "newsourcealiases srcs acc = Inr al \<Longrightarrow>
   fst ` set al = fst ` set acc \<union> {a. \<exists>src. (Some a, src) \<in> set srcs}"
proof (induction srcs acc rule: newsourcealiases.induct)
  case (1 acc)
  then show ?case by simp
next
  case (2 src srcs acc)
  then show ?case by simp
next
  case (3 a src srcs acc)
  from "3.prems" have "newsourcealiases srcs (AList.update a src acc) = Inr al" by simp
  from "3.IH" [OF this] show ?case by (auto simp: dom_update)
qed

lemma remap_sources_missing:
  "\<exists>sid \<in> set sids. map_of aliases sid = None \<Longrightarrow>
   \<exists>e. remap_sources ops aliases dest sids nsid = Inl e"
proof (induction sids arbitrary: dest nsid)
  case Nil
  then show ?case by simp
next
  case (Cons sid sids)
  show ?case
  proof (cases "map_of aliases sid")
    case None
    then show ?thesis by simp
  next
    case (Some src)
    with Cons.prems have r: "\<exists>sid \<in> set sids. map_of aliases sid = None" by auto
    show ?thesis
    proof (cases "add_source ops dest src")
      case (Inl e)
      with Some show ?thesis by simp
    next
      case (Inr p)
      obtain a dest' where p: "p = (a, dest')" by (cases p)
      from Cons.IH [OF r, of dest' "nsid @ [a]"] Some Inr p show ?thesis by simp
    qed
  qed
qed

lemma copy_items_unsound:
  "\<exists>item \<in> set items. (case it_source item of None \<Rightarrow> True
       | Some s \<Rightarrow> \<exists>sid \<in> set (split_on CHR '','' s). map_of aliases sid = None) \<Longrightarrow>
   \<exists>e. copy_items ops aliases key dest items = Inl e"
proof (induction items arbitrary: dest)
  case Nil
  then show ?case by simp
next
  case (Cons item items)
  show ?case
  proof (cases "it_source item")
    case None
    then show ?thesis by simp
  next
    case (Some s)
    show ?thesis
    proof (cases "\<exists>sid \<in> set (split_on CHR '','' s). map_of aliases sid = None")
      case True
      from remap_sources_missing [OF True, of ops dest "[]"]
      obtain e where "remap_sources ops aliases dest (split_on CHR '','' s) [] = Inl e" ..
      with Some show ?thesis by simp
    next
      case False
      with Cons.prems Some have r: "\<exists>item \<in> set items. (case it_source item of None \<Rightarrow> True
            | Some s \<Rightarrow> \<exists>sid \<in> set (split_on CHR '','' s). map_of aliases sid = None)"
        by auto
      show ?thesis
      proof (cases "remap_sources ops aliases dest (split_on CHR '','' s) []")
        case (Inl e)
        with Some show ?thesis by simp
      next
        case (Inr p)
        obtain nsid dest' where p: "p = (nsid, dest')" by (cases p)
        show ?thesis
        proof (cases "add_item ops key dest' (item\<lparr>it_source := Some (uniq_cdl ops nsid)\<rparr>)")
          case (Inl e)
          with Some Inr p show ?thesis by simp
        next
          case c: (Inr dest'')
          from Cons.IH [OF r, of dest''] obtain e where
            "copy_items ops aliases key dest'' items = Inl e" by blast
          with Some Inr p c show ?thesis by simp
        qed
      qed
    qed
  qed
qed

lemma copy_keys_unsound:
  "\<exists>(key, items) \<in> set keys. \<not> no_source ops key \<and>
      (\<exists>item \<in> set items. (case it_source item of None \<Rightarrow> True
         | Some s \<Rightarrow> \<exists>sid \<in> set (split_on CHR '','' s). map_of aliases sid = None)) \<Longrightarrow>
   \<exists>e. copy_keys ops aliases dest keys = Inl e"
proof (induction keys arbitrary: dest)
  case Nil
  then show ?case by simp
next
  case (Cons p keys)
  obtain key items where p: "p = (key, items)" by (cases p)
  show ?case
  proof (cases "\<not> no_source ops key \<and>
      (\<exists>item \<in> set items. (case it_source item of None \<Rightarrow> True
         | Some s \<Rightarrow> \<exists>sid \<in> set (split_on CHR '','' s). map_of aliases sid = None))")
    case True
    then have "\<exists>item \<in> set items. (case it_source item of None \<Rightarrow> True
         | Some s \<Rightarrow> \<exists>sid \<in> set (split_on CHR '','' s). map_of aliases sid = None)" ..
    from copy_items_unsound [OF this, of ops key dest]
    obtain e where "copy_items ops aliases key dest items = Inl e" ..
    with True p show ?thesis by simp
  next
    case False
    with Cons.prems p have r: "\<exists>(key, items) \<in> set keys. \<not> no_source ops key \<and>
      (\<exists>item \<in> set items. (case it_source item of None \<Rightarrow> True
         | Some s \<Rightarrow> \<exists>sid \<in> set (split_on CHR '','' s). map_of aliases sid = None))"
      by auto
    show ?thesis
    proof (cases "no_source ops key")
      case True
      with Cons.IH [OF r, of dest] p show ?thesis by simp
    next
      case n: False
      show ?thesis
      proof (cases "copy_items ops aliases key dest items")
        case (Inl e)
        with n p show ?thesis by simp
      next
        case (Inr dest')
        with Cons.IH [OF r, of dest'] n p show ?thesis by simp
      qed
    qed
  qed
qed

lemma unsound_item_cases:
  assumes "\<not> sound_item fromentry item"
    and "fst ` set aliases = registry fromentry"
  shows "case it_source item of None \<Rightarrow> True
         | Some s \<Rightarrow> \<exists>sid \<in> set (split_on CHR '','' s). map_of aliases sid = None"
proof (cases "it_source item")
  case None
  then show ?thesis by simp
next
  case (Some s)
  with assms(1) obtain sid where sid: "sid \<in> set (split_on CHR '','' s)" "sid \<notin> registry fromentry"
    by (auto simp: sound_item_def)
  from sid(2) assms(2) have "map_of aliases sid = None" by (simp add: map_of_eq_None_iff)
  with sid(1) Some show ?thesis by auto
qed

text \<open>
  Claim C7. When some key of the entry copied from that carries sources (not flagged
  \<open>no_source\<close>) holds an item without a \<^verbatim>\<open>'source'\<close> key, or an item citing an alias that is
  no alias of the sources of that entry, \<^verbatim>\<open>copy_entry_to_entry\<close> raises an exception,
  whatever the methods of the destination entry do; the merge that called it has no
  handler and is aborted.
\<close>

theorem unsound_item_aborts_copy:
  assumes "(key, items) \<in> set (fe_keys fromentry)" and "\<not> no_source ops key"
    and "item \<in> set items" and "\<not> sound_item fromentry item"
  shows "\<exists>e. copy_entry_to_entry ops fromentry destentry = Inl e"
proof (cases "newsourcealiases (case fe_sources fromentry of None \<Rightarrow> [] | Some srcs \<Rightarrow> srcs) []")
  case (Inl e)
  then show ?thesis by (simp add: copy_entry_to_entry_def)
next
  case (Inr aliases)
  from newsourcealiases_keys [OF Inr] have "fst ` set aliases = registry fromentry"
    by (simp add: registry_def)
  with assms(4) have "case it_source item of None \<Rightarrow> True
         | Some s \<Rightarrow> \<exists>sid \<in> set (split_on CHR '','' s). map_of aliases sid = None"
    by (rule unsound_item_cases)
  with assms(1,2,3) have "\<exists>(key, items) \<in> set (fe_keys fromentry). \<not> no_source ops key \<and>
      (\<exists>item \<in> set items. (case it_source item of None \<Rightarrow> True
         | Some s \<Rightarrow> \<exists>sid \<in> set (split_on CHR '','' s). map_of aliases sid = None))"
    by blast
  from copy_keys_unsound [OF this] Inr show ?thesis
    by (simp add: copy_entry_to_entry_def)
qed

text \<open>C7 on the two example entries: the copy raises \<^verbatim>\<open>ValueError\<close>.\<close>

theorem unsound_item_aborts_copy_witness:
  "(''redshift'', [\<lparr>it_source = None, it_fields = ()\<rparr>]) \<in> set (fe_keys unsourced_entry)
   \<and> \<not> no_source log_ops ''redshift''
   \<and> \<not> sound_item unsourced_entry \<lparr>it_source = None, it_fields = ()\<rparr>
   \<and> copy_entry_to_entry log_ops unsourced_entry [] = Inl ValueError
   \<and> \<not> sound_item dangling_entry \<lparr>it_source = Some ''1,3'', it_fields = ()\<rparr>
   \<and> copy_entry_to_entry log_ops dangling_entry [] = Inl ValueError"
proof -
  let ?i = "\<lparr>it_source = None, it_fields = ()\<rparr>"
  let ?j = "\<lparr>it_source = Some ''1,3'', it_fields = ()\<rparr>"
  have k: "(''redshift'', [?i]) \<in> set (fe_keys unsourced_entry)"
    by (simp add: unsourced_entry_def)
  have k': "(''redshift'', [?j]) \<in> set (fe_keys dangling_entry)"
    by (simp add: dangling_entry_def)
  have n: "\<not> no_source log_ops ''redshift''" by (simp add: log_ops_def)
  have m: "?i \<in> set [?i]" and m': "?j \<in> set [?j]" by simp_all
  have u: "\<not> sound_item unsourced_entry ?i" by (simp add: sound_item_def)
  have u': "\<not> sound_item dangling_entry ?j"
    by (simp add: sound_item_def dangling_entry_def registry_def split_on_def)
  from unsound_item_aborts_copy [OF k n m u, of "[]"]
  obtain e where e: "copy_entry_to_entry log_ops unsourced_entry [] = Inl e" ..
  have "copy_entry_to_entry log_ops unsourced_entry [] = Inl ValueError"
    by (simp add: copy_entry_to_entry_def unsourced_entry_def log_ops_def)
  moreover
  from unsound_item_aborts_copy [OF k' n m' u', of "[]"]
  obtain e' where e': "copy_entry_to_entry log_ops dangling_entry [] = Inl e'" ..
  have "copy_entry_to_entry log_ops dangling_entry [] = Inl ValueError"
    by (simp add: copy_entry_to_entry_def dangling_entry_def log_ops_def split_on_def)
  ultimately show ?thesis using k n u u' e e' by simp
qed

end
